theory Spec2Isabelle
  imports Main "HOL-Library.Word" "HOL-Library.Signed_Division"
begin

section \<open>The marching-cubes context of cumc.h\<close>

text \<open>
  \<open>CuMC<Scalar, IndexType>\<close> is a template. \<open>IndexType\<close> is a signed integer type of
  fixed width, \<open>int\<close> or wider (the arithmetic of a narrower type would be done in
  \<open>int\<close>); its width is the type parameter \<open>'i\<close> of the model and its values are
  \<open>'i word\<close>, read in two's complement (\<open>sint\<close>, \<open>\<le>s\<close>, \<open><s\<close>). Addition and
  multiplication are those of the word type, the result modulo \<open>2 ^ LENGTH('i)\<close>: this
  is what the host and the device compute when a sum or product does not fit, a case for
  which the language itself fixes no result. \<open>size_t\<close> is 64 bits wide, and a device
  pointer is its 64-bit address, the null pointer being 0.
\<close>

type_synonym size_t = "64 word"
type_synonym ptr = "64 word"

datatype error = DivisionByZero | QuotientOverflow

text \<open>
  The array \<open>IndexType dims[3]\<close> is a function from the index to the cell. The source
  indexes it with the literals 0, 1 and 2 only.
\<close>

record (overloaded) ('i::len) CuMC =
  dims :: "nat \<Rightarrow> 'i word"
  n_cells :: "'i word"
  n_used_cells :: "'i word"
  n_verts :: "'i word"
  n_tris :: "'i word"
  allocated_temp_storage_size :: size_t
  temp_storage :: ptr
  allocated_cell_count :: size_t
  first_cell_used :: ptr
  allocated_used_cell_count :: size_t
  used_cell_index :: ptr
  used_to_first_mc_vert :: ptr
  used_cell_code :: ptr
  used_to_first_mc_tri :: ptr
  allocated_vert_count :: size_t
  verts_type :: ptr
  verts :: ptr
  feats :: ptr
  allocated_tri_count :: size_t
  tris :: ptr

text \<open>
  The state of a freshly constructed context: every member has a default member
  initialiser, \<open>{}\<close> or \<open>{0}\<close>, so every count is 0 and every pointer is null.
\<close>

definition CuMC_init :: "('i::len) CuMC" where
  "CuMC_init =
     \<lparr> dims = (\<lambda>_. 0), n_cells = 0, n_used_cells = 0, n_verts = 0, n_tris = 0,
       allocated_temp_storage_size = 0, temp_storage = 0,
       allocated_cell_count = 0, first_cell_used = 0,
       allocated_used_cell_count = 0, used_cell_index = 0, used_to_first_mc_vert = 0,
       used_cell_code = 0, used_to_first_mc_tri = 0,
       allocated_vert_count = 0, verts_type = 0, verts = 0, feats = 0,
       allocated_tri_count = 0, tris = 0 \<rparr>"

subsection \<open>Division and remainder of IndexType\<close>

text \<open>
  \<open>a / b\<close> and \<open>a % b\<close> on a signed integer type truncate the quotient towards zero.
  Both have no result when \<open>b\<close> is 0, and none when \<open>a\<close> is the least value of the type
  and \<open>b\<close> is -1 (the quotient is not representable): these are the two errors.
\<close>

definition index_min :: "('i::len) word" where
  "index_min = word_of_int (- (2 ^ (LENGTH('i) - 1)))"

definition idiv :: "('i::len) word \<Rightarrow> 'i word \<Rightarrow> error + 'i word" where
  "idiv a b =
     (if b = 0 then Inl DivisionByZero
      else if a = index_min \<and> b = - 1 then Inl QuotientOverflow
      else Inr (word_of_int (sint a sdiv sint b)))"

definition imod :: "('i::len) word \<Rightarrow> 'i word \<Rightarrow> error + 'i word" where
  "imod a b =
     (if b = 0 then Inl DivisionByZero
      else if a = index_min \<and> b = - 1 then Inl QuotientOverflow
      else Inr (word_of_int (sint a smod sint b)))"

subsection \<open>Grid addressing\<close>

definition gA :: "('i::len) CuMC \<Rightarrow> 'i word \<Rightarrow> 'i word \<Rightarrow> 'i word \<Rightarrow> 'i word" where
  "gA c x y z = z + dims c 2 * (y + dims c 1 * x)"

definition gX :: "('i::len) CuMC \<Rightarrow> 'i word \<Rightarrow> error + 'i word" where
  "gX c linearizedCellID = idiv linearizedCellID (dims c 2 * dims c 1)"

definition gY :: "('i::len) CuMC \<Rightarrow> 'i word \<Rightarrow> error + 'i word" where
  "gY c linearizedCellID =
     (case idiv linearizedCellID (dims c 2) of
        Inl e \<Rightarrow> Inl e
      | Inr q \<Rightarrow> imod q (dims c 1))"

definition gZ :: "('i::len) CuMC \<Rightarrow> 'i word \<Rightarrow> error + 'i word" where
  "gZ c linearizedCellID = imod linearizedCellID (dims c 2)"

subsection \<open>resize\<close>

definition resize :: "('i::len) CuMC \<Rightarrow> 'i word \<Rightarrow> 'i word \<Rightarrow> 'i word \<Rightarrow> 'i CuMC" where
  "resize c x y z =
     (let c1 = c\<lparr>dims := (dims c)(0 := x)\<rparr>;
          c2 = c1\<lparr>dims := (dims c1)(1 := y)\<rparr>;
          c3 = c2\<lparr>dims := (dims c2)(2 := z)\<rparr>
      in c3\<lparr>n_cells := x * y * z\<rparr>)"

subsection \<open>forward\<close>

text \<open>
  cumc.h declares \<open>forward\<close> and the \<open>ensure_..._storage_size\<close> functions and does not
  define them. Their model follows sections 4.2 to 4.4, 6 and 7 of the specification. It
  covers the counts and the capacities of the context; the buffers themselves (their
  addresses and contents) are device memory and are not represented, so the pointer
  members stay as they are.

  What the specification leaves to the surroundings is a parameter:
  \<^item> \<open>obtainable n\<close>: the device can supply a buffer of \<open>n\<close> elements;
  \<^item> \<open>kernels_run\<close>: the kernels of the call launch and complete;
  \<^item> \<open>code_of i\<close>: the configuration code the classifier derives for cell \<open>i\<close> from the
    scalar grid and the isovalue;
  \<^item> \<open>verts_of\<close>, \<open>tris_of\<close>: the vertex and triangle count of a configuration code in the
    fixed case table.
\<close>

text \<open>
  Modelled from the spec: the failures of a call (section 7); the source has no error
  type.
\<close>

datatype failure = AllocationFailure | DimensionMismatch | DeviceExecutionError

text \<open>
  Modelled from the spec: the body of the \<open>ensure_..._storage_size\<close> functions (section
  4.2). If the capacity is sufficient the call is a no-op; otherwise the buffer is
  reallocated to hold \<open>n\<close> elements, the least the specification allows, and the call
  fails with \<open>AllocationFailure\<close> if the memory cannot be obtained. The result is the
  capacity after the call.
\<close>

definition ensure_storage_size :: "(size_t \<Rightarrow> bool) \<Rightarrow> size_t \<Rightarrow> size_t \<Rightarrow> failure + size_t" where
  "ensure_storage_size obtainable allocated n =
     (if n \<le> allocated then Inr allocated
      else if obtainable n then Inr n
      else Inl AllocationFailure)"

text \<open>
  The declared parameter of \<open>ensure_cell_storage_size\<close> is a \<open>size_t\<close>: passing it the
  IndexType \<open>n_cells\<close> converts the value modulo \<open>2 ^ 64\<close>.
\<close>

definition index_to_size_t :: "('i::len) word \<Rightarrow> size_t" where
  "index_to_size_t n = word_of_int (sint n)"

text \<open>
  Modelled from the spec: the used flag of the classifier, whose kernel is not in cumc.h
  (section 4.3). A cell is used iff its code is neither of the two uniform codes, all
  corners outside (0) and all corners inside (255).
\<close>

definition cell_used :: "8 word \<Rightarrow> bool" where
  "cell_used code = (code \<noteq> 0 \<and> code \<noteq> 255)"

text \<open>
  Modelled from the spec: the compaction scan, whose kernels are not in cumc.h (section
  4.4). It goes through the cell range \<open>0 \<le> i < n_cells\<close> once and keeps the used cells
  in the order of their cell index.
\<close>

definition compact_used_cells :: "(nat \<Rightarrow> 8 word) \<Rightarrow> ('i::len) word \<Rightarrow> nat list" where
  "compact_used_cells code_of cells =
     filter (\<lambda>i. cell_used (code_of i)) [0..<nat (sint cells)]"

text \<open>
  Modelled from the spec: the body of \<open>forward\<close> (sections 2, 6 and 7). The call binds
  the context to the dimensions it is given, grows the per-cell storage, classifies and
  scans, grows the storage of the used cells and of the output, and commits the three
  counts, each converted to IndexType. A call that fails commits nothing: the model
  returns the failure alone.
\<close>

definition forward ::
  "(size_t \<Rightarrow> bool) \<Rightarrow> bool \<Rightarrow> (nat \<Rightarrow> 8 word) \<Rightarrow> (8 word \<Rightarrow> nat) \<Rightarrow> (8 word \<Rightarrow> nat) \<Rightarrow>
   ('i::len) word \<Rightarrow> 'i word \<Rightarrow> 'i word \<Rightarrow> 'i CuMC \<Rightarrow> failure + 'i CuMC" where
  "forward obtainable kernels_run code_of verts_of tris_of dimX dimY dimZ c =
     (let c1 = resize c dimX dimY dimZ in
      (case ensure_storage_size obtainable (allocated_cell_count c1)
             (index_to_size_t (n_cells c1)) of
        Inl e \<Rightarrow> Inl e
      | Inr cell_capacity \<Rightarrow>
          (if \<not> kernels_run then Inl DeviceExecutionError
           else
            (let used = compact_used_cells code_of (n_cells c1);
                 used_count = length used;
                 vert_count = sum_list (map (\<lambda>i. verts_of (code_of i)) used);
                 tri_count = sum_list (map (\<lambda>i. tris_of (code_of i)) used)
             in
              (case ensure_storage_size obtainable (allocated_used_cell_count c1)
                     (of_nat used_count) of
                Inl e \<Rightarrow> Inl e
              | Inr used_capacity \<Rightarrow>
                  (case ensure_storage_size obtainable (allocated_vert_count c1)
                         (of_nat vert_count) of
                    Inl e \<Rightarrow> Inl e
                  | Inr vert_capacity \<Rightarrow>
                      (case ensure_storage_size obtainable (allocated_tri_count c1)
                             (of_nat tri_count) of
                        Inl e \<Rightarrow> Inl e
                      | Inr tri_capacity \<Rightarrow>
                          Inr (c1\<lparr>allocated_cell_count := cell_capacity,
                                  allocated_used_cell_count := used_capacity,
                                  allocated_vert_count := vert_capacity,
                                  allocated_tri_count := tri_capacity,
                                  n_used_cells := of_nat used_count,
                                  n_verts := of_nat vert_count,
                                  n_tris := of_nat tri_count\<rparr>))))))))"

text \<open>Invariant 1 of the data model (specification, section 3).\<close>

definition used_cells_bounded :: "('i::len) CuMC \<Rightarrow> bool" where
  "used_cells_bounded c = (0 \<le>s n_used_cells c \<and> n_used_cells c \<le>s n_cells c)"

section \<open>The vector types of cumc.h\<close>

text \<open>
  \<open>Vertex<T>\<close> and \<open>Feature<T>\<close> are templates over the scalar type \<open>T\<close>. The model
  takes \<open>T\<close> as a type with the operations the source applies to it and with no law
  assumed of them: \<open>+\<close>, \<open>-\<close>, \<open>*\<close> and the constant 0 are those of the syntactic
  classes \<open>plus\<close>, \<open>minus\<close>, \<open>times\<close> and \<open>zero\<close>. Whatever is proved holds for every
  scalar type, floating point included.
\<close>

subsection \<open>Reference parameters\<close>

text \<open>
  The member functions take their argument by const reference: \<open>Vertex<T> const &other\<close>,
  \<open>T const &scalar\<close>. While a compound assignment writes the members of \<open>*this\<close>, what
  such a parameter denotes depends on the object it is bound to. \<open>other\<close> is bound to
  another object or to \<open>*this\<close> itself (as in \<open>a += a\<close>); \<open>scalar\<close> is bound to a scalar
  outside \<open>*this\<close> or to a member of \<open>*this\<close> (as in \<open>a *= a.x\<close>). The model reads the
  parameter in the current state of \<open>*this\<close> at each use.
\<close>

datatype 'o other_ref = Another 'o | This_object

fun other_of :: "'o \<Rightarrow> 'o other_ref \<Rightarrow> 'o" where
  "other_of this (Another b) = b"
| "other_of this This_object = this"

datatype ('a, 'm) scalar_ref = Outside 'a | Member 'm

subsection \<open>Vertex\<close>

record 'a Vertex =
  x :: 'a
  y :: 'a
  z :: 'a

datatype Vertex_member = Member_x | Member_y | Member_z

fun Vertex_scalar :: "'a Vertex \<Rightarrow> ('a, Vertex_member) scalar_ref \<Rightarrow> 'a" where
  "Vertex_scalar this (Outside v) = v"
| "Vertex_scalar this (Member Member_x) = x this"
| "Vertex_scalar this (Member Member_y) = y this"
| "Vertex_scalar this (Member Member_z) = z this"

text \<open>
  \<open>operator+\<close>, \<open>dot\<close>, \<open>operator-\<close>, \<open>operator*(Vertex)\<close> and \<open>operator*(T)\<close>: const
  member functions of \<open>this\<close> (the first argument) on a const reference. They write to no
  object, so each parameter has one value throughout the call and the model takes that
  value.
\<close>

definition Vertex_plus :: "('a::plus) Vertex \<Rightarrow> 'a Vertex \<Rightarrow> 'a Vertex" where
  "Vertex_plus this other = \<lparr>x = x this + x other, y = y this + y other, z = z this + z other\<rparr>"

definition Vertex_dot :: "('a::{plus,times}) Vertex \<Rightarrow> 'a Vertex \<Rightarrow> 'a" where
  "Vertex_dot this other = x this * x other + y this * y other + z this * z other"

definition Vertex_minus :: "('a::minus) Vertex \<Rightarrow> 'a Vertex \<Rightarrow> 'a Vertex" where
  "Vertex_minus this other = \<lparr>x = x this - x other, y = y this - y other, z = z this - z other\<rparr>"

definition Vertex_times :: "('a::times) Vertex \<Rightarrow> 'a Vertex \<Rightarrow> 'a Vertex" where
  "Vertex_times this other = \<lparr>x = x this * x other, y = y this * y other, z = z this * z other\<rparr>"

definition Vertex_times_scalar :: "('a::times) Vertex \<Rightarrow> 'a \<Rightarrow> 'a Vertex" where
  "Vertex_times_scalar this scalar = \<lparr>x = x this * scalar, y = y this * scalar, z = z this * scalar\<rparr>"

text \<open>
  \<open>operator+=\<close>, \<open>operator-=\<close> and \<open>operator*=\<close> assign the three members of \<open>this\<close> one
  after the other and return \<open>*this\<close>: the model returns the object after the call.
\<close>

definition Vertex_plus_assign :: "('a::plus) Vertex \<Rightarrow> 'a Vertex other_ref \<Rightarrow> 'a Vertex" where
  "Vertex_plus_assign this other =
     (let t1 = this\<lparr>x := x this + x (other_of this other)\<rparr>;
          t2 = t1\<lparr>y := y t1 + y (other_of t1 other)\<rparr>;
          t3 = t2\<lparr>z := z t2 + z (other_of t2 other)\<rparr>
      in t3)"

definition Vertex_minus_assign :: "('a::minus) Vertex \<Rightarrow> 'a Vertex other_ref \<Rightarrow> 'a Vertex" where
  "Vertex_minus_assign this other =
     (let t1 = this\<lparr>x := x this - x (other_of this other)\<rparr>;
          t2 = t1\<lparr>y := y t1 - y (other_of t1 other)\<rparr>;
          t3 = t2\<lparr>z := z t2 - z (other_of t2 other)\<rparr>
      in t3)"

definition Vertex_times_assign ::
  "('a::times) Vertex \<Rightarrow> ('a, Vertex_member) scalar_ref \<Rightarrow> 'a Vertex" where
  "Vertex_times_assign this scalar =
     (let t1 = this\<lparr>x := x this * Vertex_scalar this scalar\<rparr>;
          t2 = t1\<lparr>y := y t1 * Vertex_scalar t1 scalar\<rparr>;
          t3 = t2\<lparr>z := z t2 * Vertex_scalar t2 scalar\<rparr>
      in t3)"

subsection \<open>Feature\<close>

text \<open>
  \<open>T data[SIZE]\<close> is a list; a Feature value has \<open>SIZE\<close> cells (\<open>Feature_ok\<close>). Every
  loop of the struct is \<open>for (int i = 0; i < SIZE; ++i)\<close>: \<open>for_loop i body s\<close> runs
  it from counter \<open>i\<close> in state \<open>s\<close>.
\<close>

definition SIZE :: nat where
  "SIZE = 8"

record 'a Feature =
  data :: "'a list"

definition Feature_ok :: "'a Feature \<Rightarrow> bool" where
  "Feature_ok f = (length (data f) = SIZE)"

function for_loop :: "nat \<Rightarrow> (nat \<Rightarrow> 's \<Rightarrow> 's) \<Rightarrow> 's \<Rightarrow> 's" where
  "for_loop i body s = (if i < SIZE then for_loop (i + 1) body (body i s) else s)"
  by pat_completeness auto
termination
  by (relation "measure (\<lambda>(i, body, s). SIZE - i)") auto

declare for_loop.simps [simp del]

text \<open>
  \<open>Feature<T> result;\<close> declares the result without initialising it. The model fills
  its \<open>SIZE\<close> cells with 0; each loop below writes every cell before it returns and
  reads none of them.
\<close>

definition Feature_uninitialized :: "('a::zero) Feature" where
  "Feature_uninitialized = \<lparr>data = replicate SIZE 0\<rparr>"

definition Feature_plus :: "('a::{zero,plus}) Feature \<Rightarrow> 'a Feature \<Rightarrow> 'a Feature" where
  "Feature_plus this other =
     for_loop 0 (\<lambda>i result. result\<lparr>data := (data result)[i := data this ! i + data other ! i]\<rparr>)
       Feature_uninitialized"

definition Feature_dot :: "('a::{zero,plus,times}) Feature \<Rightarrow> 'a Feature \<Rightarrow> 'a" where
  "Feature_dot this other =
     for_loop 0 (\<lambda>i result. result + data this ! i * data other ! i) 0"

definition Feature_minus :: "('a::{zero,minus}) Feature \<Rightarrow> 'a Feature \<Rightarrow> 'a Feature" where
  "Feature_minus this other =
     for_loop 0 (\<lambda>i result. result\<lparr>data := (data result)[i := data this ! i - data other ! i]\<rparr>)
       Feature_uninitialized"

definition Feature_times :: "('a::{zero,times}) Feature \<Rightarrow> 'a Feature \<Rightarrow> 'a Feature" where
  "Feature_times this other =
     for_loop 0 (\<lambda>i result. result\<lparr>data := (data result)[i := data this ! i * data other ! i]\<rparr>)
       Feature_uninitialized"

definition Feature_times_scalar :: "('a::{zero,times}) Feature \<Rightarrow> 'a \<Rightarrow> 'a Feature" where
  "Feature_times_scalar this scalar =
     for_loop 0 (\<lambda>i result. result\<lparr>data := (data result)[i := data this ! i * scalar]\<rparr>)
       Feature_uninitialized"

text \<open>
  The compound assignments and the accumulate write \<open>data\<close> of \<open>*this\<close> in place; \<open>t\<close> is
  the state of \<open>*this\<close> in the loop. A scalar bound to a member is a cell of \<open>data\<close>.
\<close>

fun Feature_scalar :: "'a Feature \<Rightarrow> ('a, nat) scalar_ref \<Rightarrow> 'a" where
  "Feature_scalar this (Outside v) = v"
| "Feature_scalar this (Member k) = data this ! k"

definition Feature_plus_assign ::
  "('a::plus) Feature \<Rightarrow> 'a Feature other_ref \<Rightarrow> 'a Feature" where
  "Feature_plus_assign this other =
     for_loop 0 (\<lambda>i t. t\<lparr>data := (data t)[i := data t ! i + data (other_of t other) ! i]\<rparr>) this"

definition Feature_minus_assign ::
  "('a::minus) Feature \<Rightarrow> 'a Feature other_ref \<Rightarrow> 'a Feature" where
  "Feature_minus_assign this other =
     for_loop 0 (\<lambda>i t. t\<lparr>data := (data t)[i := data t ! i - data (other_of t other) ! i]\<rparr>) this"

definition Feature_times_assign ::
  "('a::times) Feature \<Rightarrow> ('a, nat) scalar_ref \<Rightarrow> 'a Feature" where
  "Feature_times_assign this scalar =
     for_loop 0 (\<lambda>i t. t\<lparr>data := (data t)[i := data t ! i * Feature_scalar t scalar]\<rparr>) this"

text \<open>
  \<open>atomicAdd(address, val)\<close> is the device's: it reads the value at \<open>address\<close>, stores
  that value plus \<open>val\<close> there and returns the value read, in one indivisible step. The
  model passes the cell by value and returns the pair of its new content and the value
  read. It is the step of one thread; other threads are not part of the model.
\<close>

definition atomicAdd :: "('a::plus) \<Rightarrow> 'a \<Rightarrow> 'a \<times> 'a" where
  "atomicAdd cell val = (cell + val, cell)"

definition atomicAddWapper ::
  "('a::plus) Feature \<Rightarrow> 'a Feature other_ref \<Rightarrow> 'a Feature" where
  "atomicAddWapper this other =
     for_loop 0
       (\<lambda>i t. t\<lparr>data := (data t)[i := fst (atomicAdd (data t ! i) (data (other_of t other) ! i))]\<rparr>)
       this"

section \<open>Example contexts and values\<close>

abbreviation small_grid :: "32 CuMC" where
  "small_grid \<equiv> resize CuMC_init 2 3 4"

abbreviation overflowing_grid :: "32 CuMC" where
  "overflowing_grid \<equiv> resize CuMC_init 1 65536 65536"

abbreviation negative_grid :: "32 CuMC" where
  "negative_grid \<equiv> resize CuMC_init 1 1 (- 1)"

abbreviation feature_A :: "int Feature" where
  "feature_A \<equiv> \<lparr>data = [1, 2, 3, 4, 5, 6, 7, 8]\<rparr>"

abbreviation feature_B :: "int Feature" where
  "feature_B \<equiv> \<lparr>data = [10, 20, 30, 40, 50, 60, 70, 80]\<rparr>"

abbreviation vertex_A :: "int Vertex" where
  "vertex_A \<equiv> \<lparr>x = 1, y = 2, z = 3\<rparr>"

abbreviation vertex_B :: "int Vertex" where
  "vertex_B \<equiv> \<lparr>x = 10, y = 20, z = 30\<rparr>"

section \<open>Properties\<close>

subsection \<open>Integer facts behind the linear index\<close>

lemma int_linear_div:
  fixes X Y Z D1 D2 :: int
  assumes "0 < D1" "0 < D2" "0 \<le> Y" "Y < D1" "0 \<le> Z" "Z < D2"
  shows "(Z + D2 * (Y + D1 * X)) div D2 = Y + D1 * X"
    and "(Z + D2 * (Y + D1 * X)) mod D2 = Z"
    and "(Y + D1 * X) div D1 = X"
    and "(Y + D1 * X) mod D1 = Y"
    and "(Z + D2 * (Y + D1 * X)) div (D2 * D1) = X"
proof -
  show a: "(Z + D2 * (Y + D1 * X)) div D2 = Y + D1 * X"
    using assms by simp
  show "(Z + D2 * (Y + D1 * X)) mod D2 = Z"
    using assms by simp
  show b: "(Y + D1 * X) div D1 = X"
    using assms by simp
  show "(Y + D1 * X) mod D1 = Y"
    using assms by simp
  have "(Z + D2 * (Y + D1 * X)) div (D2 * D1) = (Z + D2 * (Y + D1 * X)) div D2 div D1"
    using assms by (simp add: zdiv_zmult2_eq)
  then show "(Z + D2 * (Y + D1 * X)) div (D2 * D1) = X"
    using a b by simp
qed

lemma int_linear_bound:
  fixes X Y Z D0 D1 D2 :: int
  assumes "0 \<le> X" "X < D0" "0 \<le> Y" "Y < D1" "0 \<le> Z" "Z < D2"
  shows "0 \<le> Y + D1 * X" and "Y + D1 * X < D0 * D1"
    and "0 \<le> Z + D2 * (Y + D1 * X)" and "Z + D2 * (Y + D1 * X) < D0 * D1 * D2"
proof -
  have d1: "0 < D1" and d2: "0 < D2" and d0: "0 < D0"
    using assms by linarith+
  show w0: "0 \<le> Y + D1 * X"
    using assms d1 by simp
  have "D1 * X \<le> D1 * (D0 - 1)"
    using assms d1 by (intro mult_left_mono) auto
  then have "Y + D1 * X < D1 + D1 * (D0 - 1)"
    using assms by linarith
  then show w1: "Y + D1 * X < D0 * D1"
    by (simp add: algebra_simps)
  show "0 \<le> Z + D2 * (Y + D1 * X)"
    using assms d2 w0 by simp
  have "D2 * (Y + D1 * X) \<le> D2 * (D0 * D1 - 1)"
    using w1 d2 by (intro mult_left_mono) auto
  then have "Z + D2 * (Y + D1 * X) < D2 + D2 * (D0 * D1 - 1)"
    using assms by linarith
  then show "Z + D2 * (Y + D1 * X) < D0 * D1 * D2"
    by (simp add: algebra_simps)
qed

lemma sint_word_of_int_eq:
  fixes k :: int
  assumes "- (2 ^ (LENGTH('i::len) - 1)) \<le> k" "k < 2 ^ (LENGTH('i) - 1)"
  shows "sint (word_of_int k :: 'i word) = k"
  using assms by (simp add: sint_sbintrunc' signed_take_bit_int_eq_self)

lemma index_min_sint: "sint (index_min :: 'i::len word) = - (2 ^ (LENGTH('i) - 1))"
  unfolding index_min_def by (rule sint_word_of_int_eq) simp_all

lemma idiv_nonneg:
  fixes a b :: "'i::len word"
  assumes "0 \<le> sint a" "0 < sint b"
  shows "idiv a b = Inr (word_of_int (sint a div sint b))"
proof -
  have "b \<noteq> 0" using assms by auto
  moreover have "a \<noteq> index_min"
    using assms index_min_sint [where 'i = 'i] by auto
  moreover have "sint a sdiv sint b = sint a div sint b"
    using assms by (cases "sint a = 0") (auto simp: signed_divide_int_def)
  ultimately show ?thesis by (simp add: idiv_def)
qed

lemma imod_nonneg:
  fixes a b :: "'i::len word"
  assumes "0 \<le> sint a" "0 < sint b"
  shows "imod a b = Inr (word_of_int (sint a mod sint b))"
proof -
  have "b \<noteq> 0" using assms by auto
  moreover have "a \<noteq> index_min"
    using assms index_min_sint [where 'i = 'i] by auto
  moreover have "sint a smod sint b = sint a mod sint b"
    using assms by (simp add: smod_mod_positive)
  ultimately show ?thesis by (simp add: imod_def)
qed

text \<open>
  Whenever \<open>idiv\<close> and \<open>imod\<close> return, the result read as an integer is the quotient
  truncated towards zero and the remainder with the sign of the dividend.
\<close>

lemma sint_inject:
  fixes a b :: "'i::len word"
  assumes "sint a = sint b"
  shows "a = b"
proof -
  have "(word_of_int (sint a) :: 'i word) = word_of_int (sint b)"
    by (simp only: assms)
  then show ?thesis by simp
qed

lemma idiv_sint:
  fixes a b q :: "'i::len word"
  assumes "idiv a b = Inr q"
  shows "sint q = sint a sdiv sint b"
proof -
  define k where "k = sint a sdiv sint b"
  have b0: "b \<noteq> 0" and nov: "\<not> (a = index_min \<and> b = - 1)" and q: "q = word_of_int k"
    using assms by (auto simp: idiv_def k_def split: if_splits)
  have lo: "- (2 ^ (LENGTH('i) - 1)) \<le> sint a" by (rule sint_ge)
  have hi: "sint a < 2 ^ (LENGTH('i) - 1)" by (rule sint_lt)
  have "k \<in> {- \<bar>sint a\<bar>..\<bar>sint a\<bar>}"
    unfolding k_def by (rule sdiv_int_range)
  then have klo: "- \<bar>sint a\<bar> \<le> k" and khi: "k \<le> \<bar>sint a\<bar>" by simp_all
  have k1: "- (2 ^ (LENGTH('i) - 1)) \<le> k" using klo lo hi by linarith
  have k2: "k < 2 ^ (LENGTH('i) - 1)"
  proof (rule ccontr)
    assume "\<not> k < 2 ^ (LENGTH('i) - 1)"
    then have top: "sint a = - (2 ^ (LENGTH('i) - 1))" and neg: "k = - sint a"
      using khi lo hi by linarith+
    have ne: "sint a \<noteq> 0" using top by simp
    have "sint a sdiv sint b = - sint a" using neg by (simp only: k_def)
    then have "sint b = - 1"
      by (simp only: int_sdiv_negated_is_minus1 [OF ne])
    then have "sint b = sint (- 1 :: 'i word)" by simp
    then have "b = - 1" by (rule sint_inject)
    moreover have "sint a = sint (index_min :: 'i word)"
      using top by (simp only: index_min_sint)
    then have "a = index_min" by (rule sint_inject)
    ultimately show False using nov by simp
  qed
  show ?thesis
    unfolding q k_def [symmetric] using k1 k2 by (rule sint_word_of_int_eq)
qed

lemma imod_sint:
  fixes a b r :: "'i::len word"
  assumes "imod a b = Inr r"
  shows "sint r = sint a smod sint b"
proof -
  define k where "k = sint a smod sint b"
  have b0: "b \<noteq> 0" and r: "r = word_of_int k"
    using assms by (auto simp: imod_def k_def split: if_splits)
  have "sint b \<noteq> sint (0 :: 'i word)" using b0 sint_inject by blast
  then have sb: "sint b \<noteq> 0" by simp
  have lo: "- (2 ^ (LENGTH('i) - 1)) \<le> sint b" by (rule sint_ge)
  have hi: "sint b < 2 ^ (LENGTH('i) - 1)" by (rule sint_lt)
  have "k \<in> {- \<bar>sint b\<bar> + 1..\<bar>sint b\<bar> - 1}"
    unfolding k_def by (rule smod_int_range [OF sb])
  then have "- \<bar>sint b\<bar> + 1 \<le> k" and "k \<le> \<bar>sint b\<bar> - 1" by simp_all
  then have k1: "- (2 ^ (LENGTH('i) - 1)) \<le> k" and k2: "k < 2 ^ (LENGTH('i) - 1)"
    using lo hi by linarith+
  show ?thesis
    unfolding r k_def [symmetric] using k1 k2 by (rule sint_word_of_int_eq)
qed

text \<open>
  The two functions case by case: when they fail, and what they return, in terms of the
  integers the words stand for.
\<close>

lemma sint_eq_0_iff:
  fixes b :: "'i::len word"
  shows "(sint b = 0) = (b = 0)"
proof
  assume "sint b = 0"
  then have "sint b = sint (0 :: 'i word)" by simp
  then show "b = 0" by (rule sint_inject)
next
  assume "b = 0"
  then show "sint b = 0" by simp
qed

lemma sint_eq_minus_1_iff:
  fixes b :: "'i::len word"
  shows "(sint b = - 1) = (b = - 1)"
proof
  assume "sint b = - 1"
  then have "sint b = sint (- 1 :: 'i word)" by simp
  then show "b = - 1" by (rule sint_inject)
next
  assume "b = - 1"
  then show "sint b = - 1" by simp
qed

lemma sint_eq_least_iff:
  fixes a :: "'i::len word"
  shows "(sint a = - (2 ^ (LENGTH('i) - 1))) = (a = index_min)"
proof
  assume "sint a = - (2 ^ (LENGTH('i) - 1))"
  then have "sint a = sint (index_min :: 'i word)" by (simp only: index_min_sint)
  then show "a = index_min" by (rule sint_inject)
next
  assume "a = index_min"
  then show "sint a = - (2 ^ (LENGTH('i) - 1))" by (simp only: index_min_sint)
qed

lemma idiv_cases:
  fixes a b :: "'i::len word"
  shows "(case idiv a b of
      Inr v \<Rightarrow> sint b \<noteq> 0 \<and> \<not> (sint a = - (2 ^ (LENGTH('i) - 1)) \<and> sint b = - 1) \<and>
        sint v = sint a sdiv sint b
    | Inl e \<Rightarrow> sint b = 0 \<or> (sint a = - (2 ^ (LENGTH('i) - 1)) \<and> sint b = - 1))"
proof (cases "idiv a b")
  case (Inl e)
  then have "b = 0 \<or> (a = index_min \<and> b = - 1)"
    by (auto simp: idiv_def split: if_splits)
  then show ?thesis
    unfolding Inl sum.case sint_eq_0_iff sint_eq_minus_1_iff sint_eq_least_iff .
next
  case (Inr v)
  then have "b \<noteq> 0 \<and> \<not> (a = index_min \<and> b = - 1)"
    by (auto simp: idiv_def split: if_splits)
  moreover have "sint v = sint a sdiv sint b" using Inr by (rule idiv_sint)
  ultimately show ?thesis
    unfolding Inr sum.case sint_eq_0_iff sint_eq_minus_1_iff sint_eq_least_iff by blast
qed

lemma imod_cases:
  fixes a b :: "'i::len word"
  shows "(case imod a b of
      Inr v \<Rightarrow> sint b \<noteq> 0 \<and> \<not> (sint a = - (2 ^ (LENGTH('i) - 1)) \<and> sint b = - 1) \<and>
        sint v = sint a smod sint b
    | Inl e \<Rightarrow> sint b = 0 \<or> (sint a = - (2 ^ (LENGTH('i) - 1)) \<and> sint b = - 1))"
proof (cases "imod a b")
  case (Inl e)
  then have "b = 0 \<or> (a = index_min \<and> b = - 1)"
    by (auto simp: imod_def split: if_splits)
  then show ?thesis
    unfolding Inl sum.case sint_eq_0_iff sint_eq_minus_1_iff sint_eq_least_iff .
next
  case (Inr v)
  then have "b \<noteq> 0 \<and> \<not> (a = index_min \<and> b = - 1)"
    by (auto simp: imod_def split: if_splits)
  moreover have "sint v = sint a smod sint b" using Inr by (rule imod_sint)
  ultimately show ?thesis
    unfolding Inr sum.case sint_eq_0_iff sint_eq_minus_1_iff sint_eq_least_iff by blast
qed


lemma gA_of_int:
  fixes c :: "('i::len) CuMC" and x y z :: "'i word"
  shows "gA c x y z =
     word_of_int (sint z + sint (dims c 2) * (sint y + sint (dims c 1) * sint x))"
  by (simp add: gA_def)

lemma sint_small:
  fixes k :: int
  assumes "0 \<le> k" "k < 2 ^ (LENGTH('i::len) - 1)"
  shows "sint (word_of_int k :: 'i word) = k"
proof (rule sint_word_of_int_eq)
  have "- (2 ^ (LENGTH('i) - 1)) \<le> (0::int)" by simp
  then show "- (2 ^ (LENGTH('i) - 1)) \<le> k" using assms(1) by linarith
  show "k < 2 ^ (LENGTH('i) - 1)" by (fact assms(2))
qed

lemma plane_fits:
  fixes D0 D1 D2 B :: int
  assumes "0 < D0" "0 < D1" "0 < D2" "D0 * D1 * D2 < B"
  shows "D2 * D1 < B" and "D1 < B" and "D2 < B"
proof -
  have "0 \<le> (D0 - 1) * (D2 * D1)" using assms by simp
  then have "D2 * D1 \<le> D0 * D1 * D2" by (simp add: algebra_simps)
  then show p: "D2 * D1 < B" using assms(4) by linarith
  have "0 \<le> D1 * (D2 - 1)" using assms by simp
  then have "D1 \<le> D2 * D1" by (simp add: algebra_simps)
  then show "D1 < B" using p by linarith
  have "0 \<le> D2 * (D1 - 1)" using assms by simp
  then have "D2 \<le> D2 * D1" by (simp add: algebra_simps)
  then show "D2 < B" using p by linarith
qed

lemma coords_to_index_to_coords:
  fixes c :: "('i::len) CuMC"
    and x y z :: "'i word"
  assumes pos: "0 <s dims c 0" "0 <s dims c 1" "0 <s dims c 2"
    and fits: "sint (dims c 0) * sint (dims c 1) * sint (dims c 2) < 2 ^ (LENGTH('i) - 1)"
    and x: "0 \<le>s x" "x <s dims c 0"
    and y: "0 \<le>s y" "y <s dims c 1"
    and z: "0 \<le>s z" "z <s dims c 2"
  shows "gX c (gA c x y z) = Inr x" and "gY c (gA c x y z) = Inr y"
    and "gZ c (gA c x y z) = Inr z"
proof -
  define D0 D1 D2 X Y Z where "D0 = sint (dims c 0)" and "D1 = sint (dims c 1)"
    and "D2 = sint (dims c 2)" and "X = sint x" and "Y = sint y" and "Z = sint z"
  define I where "I = Z + D2 * (Y + D1 * X)"
  have d: "0 < D0" "0 < D1" "0 < D2"
    using pos by (simp_all add: word_sless_alt D0_def D1_def D2_def)
  have r: "0 \<le> X" "X < D0" "0 \<le> Y" "Y < D1" "0 \<le> Z" "Z < D2"
    using x y z by (simp_all add: word_sless_alt word_sle_eq D0_def D1_def D2_def X_def Y_def Z_def)
  have B: "D0 * D1 * D2 < 2 ^ (LENGTH('i) - 1)"
    using fits by (simp add: D0_def D1_def D2_def)
  have I0: "0 \<le> I" and I1: "I < D0 * D1 * D2"
    unfolding I_def using int_linear_bound [OF r] by simp_all
  have W0: "0 \<le> Y + D1 * X" and W1: "Y + D1 * X < D0 * D1"
    using int_linear_bound [OF r] by simp_all
  have gA: "gA c x y z = word_of_int I"
    by (simp add: gA_of_int I_def D1_def D2_def X_def Y_def Z_def)
  have sI: "sint (gA c x y z) = I"
    unfolding gA using I0 I1 B by (intro sint_small) auto
  have sP: "sint (dims c 2 * dims c 1) = D2 * D1"
  proof -
    have "dims c 2 * dims c 1 = word_of_int (D2 * D1)"
      by (simp add: D1_def D2_def)
    moreover have "0 \<le> D2 * D1" using d by simp
    moreover have "D2 * D1 < 2 ^ (LENGTH('i) - 1)"
      using plane_fits(1) [OF d B] .
    ultimately show ?thesis by (simp only: sint_small)
  qed
  have nn: "0 \<le> sint (gA c x y z)" unfolding sI by (fact I0)
  have pp: "0 < sint (dims c 2 * dims c 1)" unfolding sP using d by simp
  have p2: "0 < sint (dims c 2)" and p1: "0 < sint (dims c 1)"
    using d unfolding D1_def D2_def by simp_all
  have "gX c (gA c x y z) = Inr (word_of_int (I div (D2 * D1)))"
    unfolding gX_def idiv_nonneg [OF nn pp] sI sP ..
  also have "I div (D2 * D1) = X"
    unfolding I_def using int_linear_div(5) [OF d(2) d(3) r(3) r(4) r(5) r(6)] .
  finally show "gX c (gA c x y z) = Inr x" by (simp add: X_def)
  have q: "idiv (gA c x y z) (dims c 2) = Inr (word_of_int (Y + D1 * X))"
  proof -
    have "idiv (gA c x y z) (dims c 2) = Inr (word_of_int (I div D2))"
      unfolding idiv_nonneg [OF nn p2] sI D2_def ..
    also have "I div D2 = Y + D1 * X"
      unfolding I_def using int_linear_div(1) [OF d(2) d(3) r(3) r(4) r(5) r(6)] .
    finally show ?thesis .
  qed
  have sW: "sint (word_of_int (Y + D1 * X) :: 'i word) = Y + D1 * X"
  proof (rule sint_small [OF W0])
    have "D0 * D1 * 1 \<le> D0 * D1 * D2"
      using d by (intro mult_left_mono) auto
    then show "Y + D1 * X < 2 ^ (LENGTH('i) - 1)" using W1 B by linarith
  qed
  have nw: "0 \<le> sint (word_of_int (Y + D1 * X) :: 'i word)"
    unfolding sW by (fact W0)
  have "imod (word_of_int (Y + D1 * X)) (dims c 1) =
      Inr (word_of_int (sint (word_of_int (Y + D1 * X) :: 'i word) mod sint (dims c 1)))"
    by (rule imod_nonneg [OF nw p1])
  then have "gY c (gA c x y z) = Inr (word_of_int ((Y + D1 * X) mod D1))"
    unfolding gY_def q sW by (simp only: sum.case D1_def)
  also have "(Y + D1 * X) mod D1 = Y"
    using int_linear_div(4) [OF d(2) d(3) r(3) r(4) r(5) r(6)] .
  finally show "gY c (gA c x y z) = Inr y" by (simp add: Y_def)
  have "gZ c (gA c x y z) = Inr (word_of_int (I mod D2))"
    unfolding gZ_def imod_nonneg [OF nn p2] sI D2_def ..
  also have "I mod D2 = Z"
    unfolding I_def using int_linear_div(2) [OF d(2) d(3) r(3) r(4) r(5) r(6)] .
  finally show "gZ c (gA c x y z) = Inr z" by (simp add: Z_def)
qed

lemma int_recompose:
  fixes I D1 D2 :: int
  assumes "0 < D1" "0 < D2"
  shows "I mod D2 + D2 * ((I div D2) mod D1 + D1 * (I div (D2 * D1))) = I"
proof -
  have "I div (D2 * D1) = I div D2 div D1"
    using assms by (simp add: zdiv_zmult2_eq)
  then have "(I div D2) mod D1 + D1 * (I div (D2 * D1)) = I div D2"
    by simp
  then show ?thesis by simp
qed

lemma int_coords_range:
  fixes I D1 D2 :: int
  assumes "0 < D1" "0 < D2" "0 \<le> I"
  shows "0 \<le> I div (D2 * D1)" and "I div (D2 * D1) \<le> I"
    and "0 \<le> (I div D2) mod D1" and "(I div D2) mod D1 < D1"
    and "0 \<le> I mod D2" and "I mod D2 < D2"
    and "0 \<le> I div D2" and "I div D2 \<le> I"
proof -
  have p: "0 < D2 * D1" using assms by simp
  show "0 \<le> I div (D2 * D1)" using assms p by (simp add: pos_imp_zdiv_nonneg_iff)
  show "0 \<le> (I div D2) mod D1" "(I div D2) mod D1 < D1" "0 \<le> I mod D2" "I mod D2 < D2"
    using assms by simp_all
  show "0 \<le> I div D2" using assms by (simp add: pos_imp_zdiv_nonneg_iff)
  have "I div D2 \<le> I div 1"
    using assms by (intro zdiv_mono2) auto
  then show "I div D2 \<le> I" by simp
  have "1 \<le> D2 * D1" using p by linarith
  then have "I div (D2 * D1) \<le> I div 1"
    using assms by (intro zdiv_mono2) auto
  then show "I div (D2 * D1) \<le> I" by simp
qed

lemma index_to_coords_to_index:
  fixes c :: "('i::len) CuMC" and idx :: "'i word"
  assumes pos: "0 <s dims c 0" "0 <s dims c 1" "0 <s dims c 2"
    and fits: "sint (dims c 0) * sint (dims c 1) * sint (dims c 2) < 2 ^ (LENGTH('i) - 1)"
    and idx: "0 \<le>s idx"
  shows "\<exists>cx cy cz. gX c idx = Inr cx \<and> gY c idx = Inr cy \<and> gZ c idx = Inr cz \<and>
           gA c cx cy cz = idx"
proof -
  define D0 D1 D2 I where "D0 = sint (dims c 0)" and "D1 = sint (dims c 1)"
    and "D2 = sint (dims c 2)" and "I = sint idx"
  have d: "0 < D0" "0 < D1" "0 < D2"
    using pos by (simp_all add: word_sless_alt D0_def D1_def D2_def)
  have B: "D0 * D1 * D2 < 2 ^ (LENGTH('i) - 1)"
    using fits by (simp add: D0_def D1_def D2_def)
  have I0: "0 \<le> I"
    using idx unfolding I_def by (simp add: word_sle_eq)
  have IB: "I < 2 ^ (LENGTH('i) - 1)" unfolding I_def by (rule sint_lt)
  note R = int_coords_range [OF d(2) d(3) I0]
  have sP: "sint (dims c 2 * dims c 1) = D2 * D1"
  proof -
    have "dims c 2 * dims c 1 = word_of_int (D2 * D1)"
      by (simp add: D1_def D2_def)
    moreover have "0 \<le> D2 * D1" using d by simp
    moreover have "D2 * D1 < 2 ^ (LENGTH('i) - 1)"
      using plane_fits(1) [OF d B] .
    ultimately show ?thesis by (simp only: sint_small)
  qed
  have nn: "0 \<le> sint idx" using I0 by (simp add: I_def)
  have pp: "0 < sint (dims c 2 * dims c 1)" unfolding sP using d by simp
  have p2: "0 < sint (dims c 2)" and p1: "0 < sint (dims c 1)"
    using d unfolding D1_def D2_def by simp_all
  define cx cy cz :: "'i word" where "cx = word_of_int (I div (D2 * D1))"
    and "cy = word_of_int ((I div D2) mod D1)" and "cz = word_of_int (I mod D2)"
  have sx: "sint cx = I div (D2 * D1)"
    unfolding cx_def using R(1) R(2) IB by (intro sint_small) linarith+
  have sy: "sint cy = (I div D2) mod D1"
    unfolding cy_def using R(3) R(4) plane_fits(2) [OF d B] by (intro sint_small) linarith+
  have sz: "sint cz = I mod D2"
    unfolding cz_def using R(5) R(6) plane_fits(3) [OF d B] by (intro sint_small) linarith+
  have gx: "gX c idx = Inr cx"
    unfolding gX_def idiv_nonneg [OF nn pp] sP cx_def I_def ..
  have q: "idiv idx (dims c 2) = Inr (word_of_int (I div D2))"
    unfolding idiv_nonneg [OF nn p2] I_def D2_def ..
  have sQ: "sint (word_of_int (I div D2) :: 'i word) = I div D2"
    using R(7) R(8) IB by (intro sint_small) linarith+
  have nq: "0 \<le> sint (word_of_int (I div D2) :: 'i word)"
    unfolding sQ by (fact R(7))
  have "imod (word_of_int (I div D2)) (dims c 1) =
      Inr (word_of_int (sint (word_of_int (I div D2) :: 'i word) mod sint (dims c 1)))"
    by (rule imod_nonneg [OF nq p1])
  then have gy: "gY c idx = Inr cy"
    unfolding gY_def q sQ cy_def by (simp only: sum.case D1_def)
  have gz: "gZ c idx = Inr cz"
    unfolding gZ_def imod_nonneg [OF nn p2] cz_def I_def D2_def ..
  have "gA c cx cy cz =
      word_of_int (I mod D2 + D2 * ((I div D2) mod D1 + D1 * (I div (D2 * D1))))"
    unfolding gA_of_int sx sy sz D1_def D2_def ..
  also have "\<dots> = word_of_int I"
    unfolding int_recompose [OF d(2) d(3)] ..
  also have "\<dots> = idx" by (simp add: I_def)
  finally have ga: "gA c cx cy cz = idx" .
  show ?thesis using gx gy gz ga by blast
qed

subsection \<open>Grid addressing\<close>

text \<open>
  C2, as the source has it. The formulas of the specification do not hold of every
  context and all arguments when they are read over the integers. With 32 bits and dims
  (1, 65536, 65536), \<open>gA(1,0,0)\<close> is 0 where \<open>z + dims[2]*(y + dims[1]*x)\<close> is \<open>2 ^ 32\<close>,
  and \<open>gX(0)\<close> divides by zero, the product \<open>dims[2]*dims[1]\<close> being 0 in IndexType,
  where \<open>idx / (dims[2]*dims[1])\<close> is 0. With dims (1, 1, -1), \<open>gZ\<close> of the least value
  of IndexType has no result where \<open>idx % dims[2]\<close> is 0.
\<close>

theorem grid_formulas_overflow_counterexample:
  "sint (gA overflowing_grid 1 0 0) = 0 \<and>
   sint (0 :: 32 word) + sint (dims overflowing_grid 2) *
     (sint (0 :: 32 word) + sint (dims overflowing_grid 1) * sint (1 :: 32 word)) = 4294967296 \<and>
   gX overflowing_grid 0 = Inl DivisionByZero \<and>
   sint (0 :: 32 word) sdiv (sint (dims overflowing_grid 2) * sint (dims overflowing_grid 1)) = 0 \<and>
   gZ negative_grid (- 2147483648) = Inl QuotientOverflow \<and>
   sint (- 2147483648 :: 32 word) smod sint (dims negative_grid 2) = 0"
  by (simp add: resize_def CuMC_init_def gA_def gX_def gZ_def idiv_def imod_def index_min_def
      Let_def signed_modulo_int_def)

text \<open>
  C2, amended. For an IndexType of the width of \<open>int\<close> or wider, every context and all
  arguments, the four functions compute the formulas of the specification in the
  arithmetic of IndexType:
  \<^item> \<open>gA(x,y,z)\<close> is \<open>z + dims[2]*(y + dims[1]*x)\<close> reduced modulo \<open>2 ^ w\<close> into the signed
    range, and is equal to it whenever it is representable;
  \<^item> with \<open>p\<close> the product \<open>dims[2]*dims[1]\<close> reduced in the same way (equal to it whenever
    it is representable), \<open>gX(idx)\<close> is the quotient \<open>idx / p\<close> truncated towards zero;
  \<^item> \<open>gY(idx)\<close> is \<open>(idx / dims[2]) % dims[1]\<close> and \<open>gZ(idx)\<close> is \<open>idx % dims[2]\<close>, with the
    truncated quotient and the remainder of the sign of the dividend;
  \<^item> a division or remainder has no result, and the function fails, exactly when its
    divisor is 0 or when it divides the least value of IndexType by -1.
\<close>

theorem grid_addressing_formulas:
  fixes c :: "('i::len) CuMC" and cx cy cz idx :: "'i word"
  assumes width: "32 \<le> LENGTH('i)"
  shows "(let D1 = sint (dims c 1); D2 = sint (dims c 2); I = sint idx;
              F = sint cz + D2 * (sint cy + D1 * sint cx);
              P = signed_take_bit (LENGTH('i) - 1) (D2 * D1);
              least = - (2 ^ (LENGTH('i) - 1))
          in
            sint (gA c cx cy cz) = signed_take_bit (LENGTH('i) - 1) F \<and>
            (least \<le> F \<and> F < - least \<longrightarrow> sint (gA c cx cy cz) = F) \<and>
            (least \<le> D2 * D1 \<and> D2 * D1 < - least \<longrightarrow> P = D2 * D1) \<and>
            (case gX c idx of
               Inr v \<Rightarrow> P \<noteq> 0 \<and> \<not> (I = least \<and> P = - 1) \<and> sint v = I sdiv P
             | Inl e \<Rightarrow> P = 0 \<or> (I = least \<and> P = - 1)) \<and>
            (case gY c idx of
               Inr v \<Rightarrow> D2 \<noteq> 0 \<and> \<not> (I = least \<and> D2 = - 1) \<and>
                 D1 \<noteq> 0 \<and> \<not> (I sdiv D2 = least \<and> D1 = - 1) \<and>
                 sint v = (I sdiv D2) smod D1
             | Inl e \<Rightarrow> D2 = 0 \<or> (I = least \<and> D2 = - 1) \<or>
                 D1 = 0 \<or> (I sdiv D2 = least \<and> D1 = - 1)) \<and>
            (case gZ c idx of
               Inr v \<Rightarrow> D2 \<noteq> 0 \<and> \<not> (I = least \<and> D2 = - 1) \<and> sint v = I smod D2
             | Inl e \<Rightarrow> D2 = 0 \<or> (I = least \<and> D2 = - 1)))"
proof -
  define D1 D2 I F P least where "D1 = sint (dims c 1)" and "D2 = sint (dims c 2)"
    and "I = sint idx" and "F = sint cz + D2 * (sint cy + D1 * sint cx)"
    and "P = signed_take_bit (LENGTH('i) - 1) (D2 * D1)"
    and "least = - ((2::int) ^ (LENGTH('i) - 1))"
  have a1: "sint (gA c cx cy cz) = signed_take_bit (LENGTH('i) - 1) F"
    unfolding gA_of_int F_def D1_def D2_def by (rule sint_sbintrunc')
  have a2: "least \<le> F \<and> F < - least \<longrightarrow> sint (gA c cx cy cz) = F"
    unfolding a1 least_def by (simp add: signed_take_bit_int_eq_self)
  have a3: "least \<le> D2 * D1 \<and> D2 * D1 < - least \<longrightarrow> P = D2 * D1"
    unfolding P_def least_def by (simp add: signed_take_bit_int_eq_self)
  have sP: "sint (dims c 2 * dims c 1) = P"
    unfolding P_def D1_def D2_def by (rule sint_word_mult)
  have gx: "(case gX c idx of
               Inr v \<Rightarrow> P \<noteq> 0 \<and> \<not> (I = least \<and> P = - 1) \<and> sint v = I sdiv P
             | Inl e \<Rightarrow> P = 0 \<or> (I = least \<and> P = - 1))"
    using idiv_cases [where a = idx and b = "dims c 2 * dims c 1"]
    unfolding gX_def sP I_def least_def .
  have gz: "(case gZ c idx of
               Inr v \<Rightarrow> D2 \<noteq> 0 \<and> \<not> (I = least \<and> D2 = - 1) \<and> sint v = I smod D2
             | Inl e \<Rightarrow> D2 = 0 \<or> (I = least \<and> D2 = - 1))"
    using imod_cases [where a = idx and b = "dims c 2"]
    unfolding gZ_def D2_def I_def least_def .
  have gy: "(case gY c idx of
               Inr v \<Rightarrow> D2 \<noteq> 0 \<and> \<not> (I = least \<and> D2 = - 1) \<and>
                 D1 \<noteq> 0 \<and> \<not> (I sdiv D2 = least \<and> D1 = - 1) \<and>
                 sint v = (I sdiv D2) smod D1
             | Inl e \<Rightarrow> D2 = 0 \<or> (I = least \<and> D2 = - 1) \<or>
                 D1 = 0 \<or> (I sdiv D2 = least \<and> D1 = - 1))"
  proof (cases "idiv idx (dims c 2)")
    case (Inl e)
    have "D2 = 0 \<or> (I = least \<and> D2 = - 1)"
      using idiv_cases [where a = idx and b = "dims c 2"]
      unfolding Inl sum.case D2_def I_def least_def .
    then show ?thesis unfolding gY_def Inl sum.case by blast
  next
    case (Inr q)
    have q: "D2 \<noteq> 0 \<and> \<not> (I = least \<and> D2 = - 1) \<and> sint q = I sdiv D2"
      using idiv_cases [where a = idx and b = "dims c 2"]
      unfolding Inr sum.case D2_def I_def least_def .
    then have sq: "sint q = I sdiv D2" by blast
    have m: "(case imod q (dims c 1) of
        Inr v \<Rightarrow> D1 \<noteq> 0 \<and> \<not> (I sdiv D2 = least \<and> D1 = - 1) \<and> sint v = (I sdiv D2) smod D1
      | Inl e \<Rightarrow> D1 = 0 \<or> (I sdiv D2 = least \<and> D1 = - 1))"
      using imod_cases [where a = q and b = "dims c 1"]
      unfolding sq D1_def [symmetric] least_def [symmetric] .
    show ?thesis
    proof (cases "imod q (dims c 1)")
      case (Inl e)
      have "D1 = 0 \<or> (I sdiv D2 = least \<and> D1 = - 1)"
        using m unfolding Inl sum.case .
      then show ?thesis unfolding gY_def \<open>idiv idx (dims c 2) = Inr q\<close> Inl sum.case by blast
    next
      case (Inr v)
      have "D1 \<noteq> 0 \<and> \<not> (I sdiv D2 = least \<and> D1 = - 1) \<and> sint v = (I sdiv D2) smod D1"
        using m unfolding Inr sum.case .
      then show ?thesis
        unfolding gY_def \<open>idiv idx (dims c 2) = Inr q\<close> Inr sum.case using q by blast
    qed
  qed
  show ?thesis
    unfolding Let_def
    using a1 a2 a3 gx gy gz
    unfolding D1_def D2_def I_def F_def P_def least_def by blast
qed

theorem grid_addressing_formulas_witness:
  "(32::nat) \<le> LENGTH(32) \<and>
   sint (gA small_grid 1 2 3) = 23 \<and>
   gX small_grid 23 = Inr 1 \<and> sint (1 :: 32 word) = 23 sdiv (4 * 3) \<and>
   gY small_grid 23 = Inr 2 \<and> sint (2 :: 32 word) = (23 sdiv 4) smod 3 \<and>
   gZ small_grid 23 = Inr 3 \<and> sint (3 :: 32 word) = 23 smod 4"
proof -
  have w: "(32::nat) \<le> LENGTH(32)" by simp
  have d: "sint (dims small_grid 1) = 3" "sint (dims small_grid 2) = 4"
    by (simp_all add: resize_def CuMC_init_def Let_def)
  have r: "gX small_grid 23 = Inr 1" "gY small_grid 23 = Inr 2" "gZ small_grid 23 = Inr 3"
    by (simp_all add: resize_def CuMC_init_def Let_def gX_def gY_def gZ_def idiv_def imod_def
        index_min_def)
  have p: "signed_take_bit (LENGTH(32) - 1) (4 * 3 :: int) = 4 * 3"
    by (rule signed_take_bit_int_eq_self) simp_all
  have f: "signed_take_bit (LENGTH(32) - 1)
      (sint (3 :: 32 word) + 4 * (sint (2 :: 32 word) + 3 * sint (1 :: 32 word))) = 23"
    by (simp add: signed_take_bit_int_eq_self)
  note T = grid_addressing_formulas [OF w, where c = small_grid and cx = 1 and cy = 2 and cz = 3 and idx = 23]
  have s: "sint (23 :: 32 word) = 23" by simp
  from T have "sint (gA small_grid 1 2 3) = 23 \<and> sint (1 :: 32 word) = 23 sdiv (4 * 3) \<and>
      sint (2 :: 32 word) = (23 sdiv 4) smod 3 \<and> sint (3 :: 32 word) = 23 smod 4"
    unfolding Let_def d r sum.case p f s by blast
  then show ?thesis using w r by blast
qed

text \<open>
  C1, as the source has it. The claim holds for every context whose dims are all
  positive only when the product \<open>dims[0]*dims[1]*dims[2]\<close> is representable in
  IndexType. With 32 bits and dims (1, 65536, 65536) the product \<open>dims[2]*dims[1]\<close>
  wraps to 0, and \<open>gX\<close> of the index of the cell (0, 0, 0) divides by zero.
\<close>

theorem grid_round_trip_overflow_counterexample:
  "0 <s dims overflowing_grid 0 \<and> 0 <s dims overflowing_grid 1 \<and> 0 <s dims overflowing_grid 2 \<and>
   0 \<le>s (0 :: 32 word) \<and> (0 :: 32 word) <s dims overflowing_grid 0 \<and>
   (0 :: 32 word) <s dims overflowing_grid 1 \<and> (0 :: 32 word) <s dims overflowing_grid 2 \<and>
   gX overflowing_grid (gA overflowing_grid 0 0 0) = Inl DivisionByZero \<and>
   gX overflowing_grid (gA overflowing_grid 0 0 0) \<noteq> Inr 0"
  by (simp add: resize_def CuMC_init_def gA_def gX_def idiv_def Let_def word_sless_alt)

text \<open>
  C1, amended. For every context whose dims are all positive and whose product
  \<open>dims[0]*dims[1]*dims[2]\<close> does not overflow IndexType: for all coordinates with
  \<open>0 \<le> x < dims[0]\<close>, \<open>0 \<le> y < dims[1]\<close>, \<open>0 \<le> z < dims[2]\<close>, \<open>gX\<close>, \<open>gY\<close> and \<open>gZ\<close>
  of \<open>gA(x,y,z)\<close> return \<open>x\<close>, \<open>y\<close> and \<open>z\<close>; and for every index with
  \<open>0 \<le> idx < n_cells\<close>, \<open>gX\<close>, \<open>gY\<close> and \<open>gZ\<close> return coordinates that \<open>gA\<close> maps back to
  \<open>idx\<close>.
\<close>

theorem grid_addressing_round_trip:
  fixes c :: "('i::len) CuMC"
  assumes pos: "0 <s dims c 0" "0 <s dims c 1" "0 <s dims c 2"
    and fits: "sint (dims c 0) * sint (dims c 1) * sint (dims c 2) < 2 ^ (LENGTH('i) - 1)"
  shows "(\<forall>cx cy cz. 0 \<le>s cx \<and> cx <s dims c 0 \<and> 0 \<le>s cy \<and> cy <s dims c 1 \<and>
            0 \<le>s cz \<and> cz <s dims c 2 \<longrightarrow>
            gX c (gA c cx cy cz) = Inr cx \<and> gY c (gA c cx cy cz) = Inr cy \<and>
            gZ c (gA c cx cy cz) = Inr cz) \<and>
         (\<forall>idx. 0 \<le>s idx \<and> idx <s n_cells c \<longrightarrow>
            (\<exists>cx cy cz. gX c idx = Inr cx \<and> gY c idx = Inr cy \<and> gZ c idx = Inr cz \<and>
               gA c cx cy cz = idx))"
proof (rule conjI)
  show "\<forall>cx cy cz. 0 \<le>s cx \<and> cx <s dims c 0 \<and> 0 \<le>s cy \<and> cy <s dims c 1 \<and>
            0 \<le>s cz \<and> cz <s dims c 2 \<longrightarrow>
            gX c (gA c cx cy cz) = Inr cx \<and> gY c (gA c cx cy cz) = Inr cy \<and>
            gZ c (gA c cx cy cz) = Inr cz"
  proof (intro allI impI)
    fix cx cy cz :: "'i word"
    assume r: "0 \<le>s cx \<and> cx <s dims c 0 \<and> 0 \<le>s cy \<and> cy <s dims c 1 \<and>
            0 \<le>s cz \<and> cz <s dims c 2"
    then have r': "0 \<le>s cx" "cx <s dims c 0" "0 \<le>s cy" "cy <s dims c 1"
      "0 \<le>s cz" "cz <s dims c 2"
      by simp_all
    show "gX c (gA c cx cy cz) = Inr cx \<and> gY c (gA c cx cy cz) = Inr cy \<and>
            gZ c (gA c cx cy cz) = Inr cz"
      using coords_to_index_to_coords [OF pos fits r'] by simp
  qed
next
  show "\<forall>idx. 0 \<le>s idx \<and> idx <s n_cells c \<longrightarrow>
            (\<exists>cx cy cz. gX c idx = Inr cx \<and> gY c idx = Inr cy \<and> gZ c idx = Inr cz \<and>
               gA c cx cy cz = idx)"
  proof (intro allI impI)
    fix idx :: "'i word"
    assume "0 \<le>s idx \<and> idx <s n_cells c"
    then have "0 \<le>s idx" by simp
    then show "\<exists>cx cy cz. gX c idx = Inr cx \<and> gY c idx = Inr cy \<and> gZ c idx = Inr cz \<and>
               gA c cx cy cz = idx"
      by (rule index_to_coords_to_index [OF pos fits])
  qed
qed

theorem grid_addressing_round_trip_witness:
  "0 <s dims small_grid 0 \<and> 0 <s dims small_grid 1 \<and> 0 <s dims small_grid 2 \<and>
   sint (dims small_grid 0) * sint (dims small_grid 1) * sint (dims small_grid 2) < 2 ^ (LENGTH(32) - 1) \<and>
   gA small_grid 1 2 3 = 23 \<and> n_cells small_grid = 24 \<and>
   gX small_grid (gA small_grid 1 2 3) = Inr 1 \<and> gY small_grid (gA small_grid 1 2 3) = Inr 2 \<and>
   gZ small_grid (gA small_grid 1 2 3) = Inr 3 \<and>
   (\<exists>cx cy cz. gX small_grid 23 = Inr cx \<and> gY small_grid 23 = Inr cy \<and>
      gZ small_grid 23 = Inr cz \<and> gA small_grid cx cy cz = 23)"
proof -
  have pos: "0 <s dims small_grid 0" "0 <s dims small_grid 1" "0 <s dims small_grid 2"
    by (simp_all add: resize_def CuMC_init_def Let_def word_sless_alt)
  have fits: "sint (dims small_grid 0) * sint (dims small_grid 1) * sint (dims small_grid 2)
      < 2 ^ (LENGTH(32) - 1)"
    by (simp add: resize_def CuMC_init_def Let_def)
  have vals: "gA small_grid 1 2 3 = 23" "n_cells small_grid = 24"
    by (simp_all add: resize_def CuMC_init_def Let_def gA_def)
  have r: "0 \<le>s (1 :: 32 word) \<and> 1 <s dims small_grid 0 \<and> 0 \<le>s (2 :: 32 word) \<and>
      2 <s dims small_grid 1 \<and> 0 \<le>s (3 :: 32 word) \<and> 3 <s dims small_grid 2"
    by (simp add: resize_def CuMC_init_def Let_def word_sless_alt word_sle_eq)
  have i: "0 \<le>s (23 :: 32 word) \<and> 23 <s n_cells small_grid"
    by (simp add: resize_def CuMC_init_def Let_def word_sless_alt word_sle_eq)
  note T = grid_addressing_round_trip [OF pos fits]
  from T have "gX small_grid (gA small_grid 1 2 3) = Inr 1 \<and>
      gY small_grid (gA small_grid 1 2 3) = Inr 2 \<and> gZ small_grid (gA small_grid 1 2 3) = Inr 3"
    using r by blast
  moreover from T have "\<exists>cx cy cz. gX small_grid 23 = Inr cx \<and> gY small_grid 23 = Inr cy \<and>
      gZ small_grid 23 = Inr cz \<and> gA small_grid cx cy cz = 23"
    using i by blast
  ultimately show ?thesis using pos fits vals by blast
qed




subsection \<open>resize\<close>

text \<open>
  C4. After \<open>resize(x, y, z)\<close> on any context, \<open>dims[0]\<close>, \<open>dims[1]\<close> and \<open>dims[2]\<close>
  are \<open>x\<close>, \<open>y\<close> and \<open>z\<close>, and \<open>n_cells\<close> is the product \<open>x * y * z\<close> computed in the
  arithmetic of IndexType.
\<close>

theorem resize_establishes_dims:
  fixes c :: "('i::len) CuMC" and x y z :: "'i word"
  shows "dims (resize c x y z) 0 = x \<and> dims (resize c x y z) 1 = y \<and>
    dims (resize c x y z) 2 = z \<and> n_cells (resize c x y z) = x * y * z"
  by (simp add: resize_def Let_def)

text \<open>
  C9. \<open>resize\<close> changes \<open>dims[0]\<close>, \<open>dims[1]\<close>, \<open>dims[2]\<close> and \<open>n_cells\<close> and nothing
  else: the context after the call is the context before it with these four cells
  replaced, and \<open>n_used_cells\<close>, \<open>n_verts\<close>, \<open>n_tris\<close>, every capacity and every buffer
  pointer are as before. No classification state is cleared or released.
\<close>

theorem resize_frame:
  fixes c :: "('i::len) CuMC" and x y z :: "'i word"
  shows "resize c x y z = c\<lparr>dims := (dims c)(0 := x, 1 := y, 2 := z), n_cells := x * y * z\<rparr> \<and>
    n_used_cells (resize c x y z) = n_used_cells c \<and>
    n_verts (resize c x y z) = n_verts c \<and>
    n_tris (resize c x y z) = n_tris c \<and>
    allocated_temp_storage_size (resize c x y z) = allocated_temp_storage_size c \<and>
    temp_storage (resize c x y z) = temp_storage c \<and>
    allocated_cell_count (resize c x y z) = allocated_cell_count c \<and>
    first_cell_used (resize c x y z) = first_cell_used c \<and>
    allocated_used_cell_count (resize c x y z) = allocated_used_cell_count c \<and>
    used_cell_index (resize c x y z) = used_cell_index c \<and>
    used_to_first_mc_vert (resize c x y z) = used_to_first_mc_vert c \<and>
    used_cell_code (resize c x y z) = used_cell_code c \<and>
    used_to_first_mc_tri (resize c x y z) = used_to_first_mc_tri c \<and>
    allocated_vert_count (resize c x y z) = allocated_vert_count c \<and>
    verts_type (resize c x y z) = verts_type c \<and>
    verts (resize c x y z) = verts c \<and>
    feats (resize c x y z) = feats c \<and>
    allocated_tri_count (resize c x y z) = allocated_tri_count c \<and>
    tris (resize c x y z) = tris c"
  by (simp add: resize_def Let_def)

subsection \<open>The loops of Feature\<close>

lemma for_loop_foldl: "i \<le> SIZE \<Longrightarrow> for_loop i body s = foldl (\<lambda>s j. body j s) s [i..<SIZE]"
proof (induction i body s rule: for_loop.induct)
  case (1 i body s)
  show ?case
  proof (cases "i < SIZE")
    case True
    then have "for_loop i body s = for_loop (i + 1) body (body i s)"
      by (subst for_loop.simps) simp
    also have "\<dots> = foldl (\<lambda>s j. body j s) (body i s) [i + 1..<SIZE]"
      using True by (intro "1.IH") auto
    also have "\<dots> = foldl (\<lambda>s j. body j s) s [i..<SIZE]"
      using True by (simp add: upt_conv_Cons)
    finally show ?thesis .
  next
    case False
    then show ?thesis by (subst for_loop.simps) simp
  qed
qed

lemma foldl_cells:
  fixes body :: "nat \<Rightarrow> 'a Feature \<Rightarrow> 'a Feature"
  assumes step: "\<And>j r. body j r = r\<lparr>data := (data r)[j := g j (data r ! j)]\<rparr>"
  shows "n \<le> length (data r) \<Longrightarrow>
    data (foldl (\<lambda>s j. body j s) r [0..<n]) =
      map (\<lambda>i. if i < n then g i (data r ! i) else data r ! i) [0..<length (data r)]"
proof (induction n)
  case 0
  show ?case by (simp add: map_nth)
next
  case (Suc n)
  define r' where "r' = foldl (\<lambda>s j. body j s) r [0..<n]"
  have IH: "data r' = map (\<lambda>i. if i < n then g i (data r ! i) else data r ! i) [0..<length (data r)]"
    unfolding r'_def using Suc.IH Suc.prems by simp
  have n: "n < length (data r)" using Suc.prems by simp
  have len: "length (data r') = length (data r)" unfolding IH by simp
  have old: "data r' ! n = data r ! n" unfolding IH using n by simp
  have "foldl (\<lambda>s j. body j s) r [0..<Suc n] = body n r'"
    unfolding r'_def by simp
  then have "data (foldl (\<lambda>s j. body j s) r [0..<Suc n]) = data (body n r')"
    by (rule arg_cong)
  also have "\<dots> = (data r')[n := g n (data r ! n)]"
    unfolding step [of n r'] old by simp
  also have "\<dots> = map (\<lambda>i. if i < Suc n then g i (data r ! i) else data r ! i) [0..<length (data r)]"
  proof (rule nth_equalityI)
    show "length ((data r')[n := g n (data r ! n)]) =
      length (map (\<lambda>i. if i < Suc n then g i (data r ! i) else data r ! i) [0..<length (data r)])"
      by (simp add: len)
  next
    fix i
    assume "i < length ((data r')[n := g n (data r ! n)])"
    then have i: "i < length (data r)" by (simp add: len)
    show "(data r')[n := g n (data r ! n)] ! i =
      map (\<lambda>i. if i < Suc n then g i (data r ! i) else data r ! i) [0..<length (data r)] ! i"
    proof (cases "i = n")
      case True
      then show ?thesis using i by (simp add: len)
    next
      case False
      then have "(data r')[n := g n (data r ! n)] ! i = data r' ! i" by simp
      also have "\<dots> = (if i < n then g i (data r ! i) else data r ! i)"
        unfolding IH using i by simp
      finally show ?thesis using i False by (simp add: less_Suc_eq)
    qed
  qed
  finally show ?case .
qed

lemma for_loop_cells:
  fixes body :: "nat \<Rightarrow> 'a Feature \<Rightarrow> 'a Feature"
  assumes step: "\<And>j r. body j r = r\<lparr>data := (data r)[j := g j (data r ! j)]\<rparr>"
    and len: "length (data r) = SIZE"
  shows "data (for_loop 0 body r) = map (\<lambda>i. g i (data r ! i)) [0..<SIZE]"
proof -
  have "data (for_loop 0 body r) = data (foldl (\<lambda>s j. body j s) r [0..<SIZE])"
    by (simp add: for_loop_foldl)
  also have "\<dots> = map (\<lambda>i. if i < SIZE then g i (data r ! i) else data r ! i) [0..<length (data r)]"
    using len by (intro foldl_cells [OF step]) simp
  also have "\<dots> = map (\<lambda>i. g i (data r ! i)) [0..<SIZE]"
    by (simp add: len)
  finally show ?thesis .
qed

lemma Feature_eqI:
  fixes f g :: "'a Feature"
  shows "data f = data g \<Longrightarrow> f = g"
  by (rule Feature.equality) simp_all

lemma uninitialized_length: "length (data (Feature_uninitialized :: 'a::zero Feature)) = SIZE"
  by (simp add: Feature_uninitialized_def)

text \<open>
  The cells a loop writes do not depend on what the result held before: any start of
  \<open>SIZE\<close> cells gives the same result as \<open>Feature_uninitialized\<close>.
\<close>

lemma result_independent_of_start:
  fixes r :: "('a::zero) Feature"
  assumes "length (data r) = SIZE"
  shows "data (for_loop 0 (\<lambda>i result. result\<lparr>data := (data result)[i := f i]\<rparr>) r) =
    data (for_loop 0 (\<lambda>i result. result\<lparr>data := (data result)[i := f i]\<rparr>)
      Feature_uninitialized)"
proof -
  have "data (for_loop 0 (\<lambda>i result. result\<lparr>data := (data result)[i := f i]\<rparr>) r) =
      map (\<lambda>i. f i) [0..<SIZE]"
    by (rule for_loop_cells [where g = "\<lambda>i _. f i"]) (simp_all add: assms)
  moreover have "data (for_loop 0 (\<lambda>i result. result\<lparr>data := (data result)[i := f i]\<rparr>)
      (Feature_uninitialized :: 'a Feature)) = map (\<lambda>i. f i) [0..<SIZE]"
    by (rule for_loop_cells [where g = "\<lambda>i _. f i"]) (simp_all add: uninitialized_length)
  ultimately show ?thesis by simp
qed

lemma Feature_plus_data:
  "data (Feature_plus a b) = map (\<lambda>i. data a ! i + data b ! i) [0..<SIZE]"
  unfolding Feature_plus_def
  by (rule for_loop_cells [where g = "\<lambda>i _. data a ! i + data b ! i"]) (simp_all add: uninitialized_length)

lemma Feature_minus_data:
  "data (Feature_minus a b) = map (\<lambda>i. data a ! i - data b ! i) [0..<SIZE]"
  unfolding Feature_minus_def
  by (rule for_loop_cells [where g = "\<lambda>i _. data a ! i - data b ! i"]) (simp_all add: uninitialized_length)

lemma Feature_times_data:
  "data (Feature_times a b) = map (\<lambda>i. data a ! i * data b ! i) [0..<SIZE]"
  unfolding Feature_times_def
  by (rule for_loop_cells [where g = "\<lambda>i _. data a ! i * data b ! i"]) (simp_all add: uninitialized_length)

lemma Feature_times_scalar_data:
  "data (Feature_times_scalar a s) = map (\<lambda>i. data a ! i * s) [0..<SIZE]"
  unfolding Feature_times_scalar_def
  by (rule for_loop_cells [where g = "\<lambda>i _. data a ! i * s"]) (simp_all add: uninitialized_length)

text \<open>
  The in-place loops, for \<open>other\<close> bound to another object and for \<open>other\<close> bound to
  \<open>*this\<close>: cell \<open>i\<close> is read before step \<open>i\<close> writes it, and no later step reads it.
\<close>

lemma Feature_plus_assign_data:
  assumes a: "Feature_ok a"
  shows "data (Feature_plus_assign a r) =
    map (\<lambda>i. data a ! i + data (other_of a r) ! i) [0..<SIZE]"
proof (cases r)
  case (Another b)
  have "data (Feature_plus_assign a (Another b)) = map (\<lambda>i. data a ! i + data b ! i) [0..<SIZE]"
    unfolding Feature_plus_assign_def
    by (rule for_loop_cells [where g = "\<lambda>i old. old + data b ! i"])
      (use a in \<open>simp_all add: Feature_ok_def\<close>)
  then show ?thesis by (simp add: Another)
next
  case This_object
  have "data (Feature_plus_assign a This_object) = map (\<lambda>i. data a ! i + data a ! i) [0..<SIZE]"
    unfolding Feature_plus_assign_def
    by (rule for_loop_cells [where g = "\<lambda>i old. old + old"])
      (use a in \<open>simp_all add: Feature_ok_def\<close>)
  then show ?thesis by (simp add: This_object)
qed

lemma Feature_minus_assign_data:
  assumes a: "Feature_ok a"
  shows "data (Feature_minus_assign a r) =
    map (\<lambda>i. data a ! i - data (other_of a r) ! i) [0..<SIZE]"
proof (cases r)
  case (Another b)
  have "data (Feature_minus_assign a (Another b)) = map (\<lambda>i. data a ! i - data b ! i) [0..<SIZE]"
    unfolding Feature_minus_assign_def
    by (rule for_loop_cells [where g = "\<lambda>i old. old - data b ! i"])
      (use a in \<open>simp_all add: Feature_ok_def\<close>)
  then show ?thesis by (simp add: Another)
next
  case This_object
  have "data (Feature_minus_assign a This_object) = map (\<lambda>i. data a ! i - data a ! i) [0..<SIZE]"
    unfolding Feature_minus_assign_def
    by (rule for_loop_cells [where g = "\<lambda>i old. old - old"])
      (use a in \<open>simp_all add: Feature_ok_def\<close>)
  then show ?thesis by (simp add: This_object)
qed

lemma Feature_times_assign_data:
  "Feature_ok a \<Longrightarrow>
    data (Feature_times_assign a (Outside s)) = map (\<lambda>i. data a ! i * s) [0..<SIZE]"
  unfolding Feature_times_assign_def Feature_ok_def
  by (rule for_loop_cells [where g = "\<lambda>i old. old * s"]) simp_all

lemma atomicAddWapper_data:
  assumes a: "Feature_ok a"
  shows "data (atomicAddWapper a r) =
    map (\<lambda>i. data a ! i + data (other_of a r) ! i) [0..<SIZE]"
proof (cases r)
  case (Another b)
  have "data (atomicAddWapper a (Another b)) = map (\<lambda>i. data a ! i + data b ! i) [0..<SIZE]"
    unfolding atomicAddWapper_def
    by (rule for_loop_cells [where g = "\<lambda>i old. old + data b ! i"])
      (use a in \<open>simp_all add: Feature_ok_def atomicAdd_def\<close>)
  then show ?thesis by (simp add: Another)
next
  case This_object
  have "data (atomicAddWapper a This_object) = map (\<lambda>i. data a ! i + data a ! i) [0..<SIZE]"
    unfolding atomicAddWapper_def
    by (rule for_loop_cells [where g = "\<lambda>i old. old + old"])
      (use a in \<open>simp_all add: Feature_ok_def atomicAdd_def\<close>)
  then show ?thesis by (simp add: This_object)
qed

lemma upt_SIZE: "[0..<SIZE] = [0, 1, 2, 3, 4, 5, 6, 7]"
  unfolding SIZE_def by code_simp

lemma Feature_dot_sum:
  "Feature_dot a b =
     0 + data a ! 0 * data b ! 0 + data a ! 1 * data b ! 1 + data a ! 2 * data b ! 2 +
     data a ! 3 * data b ! 3 + data a ! 4 * data b ! 4 + data a ! 5 * data b ! 5 +
     data a ! 6 * data b ! 6 + data a ! 7 * data b ! 7"
  unfolding Feature_dot_def by (simp add: for_loop_foldl upt_SIZE)

subsection \<open>Vertex and Feature\<close>

text \<open>
  C6. For all Vertex values \<open>a\<close>, \<open>b\<close> and every scalar \<open>s\<close>: \<open>a + b\<close>, \<open>a - b\<close> and
  \<open>a * b\<close> are the sum, difference and product of the components \<open>x\<close>, \<open>y\<close>, \<open>z\<close>,
  \<open>a * s\<close> multiplies each component by \<open>s\<close>, and \<open>a.dot(b)\<close> is
  \<open>a.x*b.x + a.y*b.y + a.z*b.z\<close>. The five operations are const member functions
  taking a const reference; in the model they are functions of the two values and
  return the result only, so neither operand is changed by them.
\<close>

theorem Vertex_componentwise:
  fixes a b :: "('a::{plus,minus,times}) Vertex" and s :: 'a
  shows "Vertex_plus a b = \<lparr>x = x a + x b, y = y a + y b, z = z a + z b\<rparr> \<and>
    Vertex_minus a b = \<lparr>x = x a - x b, y = y a - y b, z = z a - z b\<rparr> \<and>
    Vertex_times a b = \<lparr>x = x a * x b, y = y a * y b, z = z a * z b\<rparr> \<and>
    Vertex_times_scalar a s = \<lparr>x = x a * s, y = y a * s, z = z a * s\<rparr> \<and>
    Vertex_dot a b = x a * x b + y a * y b + z a * z b"
  by (simp add: Vertex_plus_def Vertex_minus_def Vertex_times_def Vertex_times_scalar_def
      Vertex_dot_def)

text \<open>
  C5. \<open>SIZE\<close> is 8, and for all Feature values \<open>a\<close>, \<open>b\<close> (of \<open>SIZE\<close> cells each) and every
  scalar \<open>s\<close>: the results of \<open>a + b\<close>, \<open>a - b\<close>, \<open>a * b\<close>, \<open>a * s\<close> and of
  \<open>a.atomicAddWapper(b)\<close> have \<open>SIZE\<close> cells, and cell \<open>i\<close> of them, for every
  \<open>0 \<le> i < SIZE\<close>, is \<open>a.data[i] + b.data[i]\<close>, \<open>a.data[i] - b.data[i]\<close>,
  \<open>a.data[i] * b.data[i]\<close>, \<open>a.data[i] * s\<close> and \<open>a.data[i] + b.data[i]\<close>; \<open>a.dot(b)\<close>
  is the sum of the eight products \<open>a.data[i] * b.data[i]\<close>, added to 0 in the order of
  the index. The accumulate is the effect of one call with no other thread writing.
\<close>

theorem Feature_componentwise:
  fixes a b :: "('a::{zero,plus,minus,times}) Feature" and s :: 'a
  assumes a: "Feature_ok a" and b: "Feature_ok b"
  shows "SIZE = 8 \<and>
    Feature_ok (Feature_plus a b) \<and> Feature_ok (Feature_minus a b) \<and>
    Feature_ok (Feature_times a b) \<and> Feature_ok (Feature_times_scalar a s) \<and>
    Feature_ok (atomicAddWapper a (Another b)) \<and>
    (\<forall>i<SIZE.
       data (Feature_plus a b) ! i = data a ! i + data b ! i \<and>
       data (Feature_minus a b) ! i = data a ! i - data b ! i \<and>
       data (Feature_times a b) ! i = data a ! i * data b ! i \<and>
       data (Feature_times_scalar a s) ! i = data a ! i * s \<and>
       data (atomicAddWapper a (Another b)) ! i = data a ! i + data b ! i) \<and>
    Feature_dot a b =
      0 + data a ! 0 * data b ! 0 + data a ! 1 * data b ! 1 + data a ! 2 * data b ! 2 +
      data a ! 3 * data b ! 3 + data a ! 4 * data b ! 4 + data a ! 5 * data b ! 5 +
      data a ! 6 * data b ! 6 + data a ! 7 * data b ! 7"
proof -
  have size: "SIZE = 8" by (simp add: SIZE_def)
  have ok: "Feature_ok (Feature_plus a b)" "Feature_ok (Feature_minus a b)"
    "Feature_ok (Feature_times a b)" "Feature_ok (Feature_times_scalar a s)"
    "Feature_ok (atomicAddWapper a (Another b))"
    unfolding Feature_ok_def
    by (simp_all add: Feature_plus_data Feature_minus_data Feature_times_data
        Feature_times_scalar_data atomicAddWapper_data [OF a])
  have cells: "\<forall>i<SIZE.
       data (Feature_plus a b) ! i = data a ! i + data b ! i \<and>
       data (Feature_minus a b) ! i = data a ! i - data b ! i \<and>
       data (Feature_times a b) ! i = data a ! i * data b ! i \<and>
       data (Feature_times_scalar a s) ! i = data a ! i * s \<and>
       data (atomicAddWapper a (Another b)) ! i = data a ! i + data b ! i"
    by (simp add: Feature_plus_data Feature_minus_data Feature_times_data
        Feature_times_scalar_data atomicAddWapper_data [OF a])
  show ?thesis
    using size ok cells Feature_dot_sum [of a b] by blast
qed

theorem Feature_componentwise_witness:
  "Feature_ok feature_A \<and> Feature_ok feature_B \<and> (3::nat) < SIZE \<and>
   data (Feature_plus feature_A feature_B) ! 3 = 44 \<and>
   data (Feature_minus feature_A feature_B) ! 3 = - 36 \<and>
   data (Feature_times feature_A feature_B) ! 3 = 160 \<and>
   data (Feature_times_scalar feature_A 5) ! 3 = 20 \<and>
   data (atomicAddWapper feature_A (Another feature_B)) ! 3 = 44 \<and>
   Feature_dot feature_A feature_B = 2040"
proof -
  have a: "Feature_ok feature_A" and b: "Feature_ok feature_B"
    by (simp_all add: Feature_ok_def SIZE_def)
  have i: "(3::nat) < SIZE" by (simp add: SIZE_def)
  note T = Feature_componentwise [OF a b, of 5]
  from T i have "data (Feature_plus feature_A feature_B) ! 3 = data feature_A ! 3 + data feature_B ! 3 \<and>
       data (Feature_minus feature_A feature_B) ! 3 = data feature_A ! 3 - data feature_B ! 3 \<and>
       data (Feature_times feature_A feature_B) ! 3 = data feature_A ! 3 * data feature_B ! 3 \<and>
       data (Feature_times_scalar feature_A 5) ! 3 = data feature_A ! 3 * 5 \<and>
       data (atomicAddWapper feature_A (Another feature_B)) ! 3 =
         data feature_A ! 3 + data feature_B ! 3"
    by blast
  then have cells: "data (Feature_plus feature_A feature_B) ! 3 = 44 \<and>
   data (Feature_minus feature_A feature_B) ! 3 = - 36 \<and>
   data (Feature_times feature_A feature_B) ! 3 = 160 \<and>
   data (Feature_times_scalar feature_A 5) ! 3 = 20 \<and>
   data (atomicAddWapper feature_A (Another feature_B)) ! 3 = 44"
    by simp
  from T have "Feature_dot feature_A feature_B =
      0 + data feature_A ! 0 * data feature_B ! 0 + data feature_A ! 1 * data feature_B ! 1 +
      data feature_A ! 2 * data feature_B ! 2 + data feature_A ! 3 * data feature_B ! 3 +
      data feature_A ! 4 * data feature_B ! 4 + data feature_A ! 5 * data feature_B ! 5 +
      data feature_A ! 6 * data feature_B ! 6 + data feature_A ! 7 * data feature_B ! 7"
    by blast
  then have dot: "Feature_dot feature_A feature_B = 2040" by simp
  show ?thesis using a b i cells dot by blast
qed

text \<open>
  C7, as the source has it. The scalar of \<open>operator*=\<close> is a reference. In \<open>a *= a.y\<close>
  with \<open>a = (1, 2, 3)\<close> the member \<open>y\<close> is 2 when \<open>x\<close> is multiplied and 4 when \<open>z\<close> is:
  the call leaves \<open>(2, 4, 12)\<close> in \<open>a\<close>, and \<open>a * s\<close> for the scalar \<open>s = 2\<close> of the
  state before is \<open>(2, 4, 6)\<close>. The same holds of Feature with \<open>a *= a.data[1]\<close>.
\<close>

theorem compound_scale_alias_counterexample:
  "Vertex_scalar vertex_A (Member Member_y) = 2 \<and>
   Vertex_times_assign vertex_A (Member Member_y) = \<lparr>x = 2, y = 4, z = 12\<rparr> \<and>
   Vertex_times_scalar vertex_A 2 = \<lparr>x = 2, y = 4, z = 6\<rparr> \<and>
   Vertex_times_assign vertex_A (Member Member_y) \<noteq> Vertex_times_scalar vertex_A 2 \<and>
   Feature_scalar feature_A (Member 1) = 2 \<and>
   data (Feature_times_assign feature_A (Member 1)) = [2, 4, 12, 16, 20, 24, 28, 32] \<and>
   data (Feature_times_scalar feature_A 2) = [2, 4, 6, 8, 10, 12, 14, 16] \<and>
   Feature_times_assign feature_A (Member 1) \<noteq> Feature_times_scalar feature_A 2"
proof -
  have v: "Vertex_times_assign vertex_A (Member Member_y) = \<lparr>x = 2, y = 4, z = 12\<rparr>"
    "Vertex_times_scalar vertex_A 2 = \<lparr>x = 2, y = 4, z = 6\<rparr>"
    by (simp_all add: Vertex_times_assign_def Vertex_times_scalar_def Let_def)
  have f: "data (Feature_times_assign feature_A (Member 1)) = [2, 4, 12, 16, 20, 24, 28, 32]"
    "data (Feature_times_scalar feature_A 2) = [2, 4, 6, 8, 10, 12, 14, 16]"
    by code_simp+
  have "Vertex_times_assign vertex_A (Member Member_y) \<noteq> Vertex_times_scalar vertex_A 2"
    unfolding v by simp
  moreover have "Feature_times_assign feature_A (Member 1) \<noteq> Feature_times_scalar feature_A 2"
  proof
    assume "Feature_times_assign feature_A (Member 1) = Feature_times_scalar feature_A 2"
    then have "data (Feature_times_assign feature_A (Member 1)) =
        data (Feature_times_scalar feature_A 2)"
      by simp
    then show False unfolding f by simp
  qed
  ultimately show ?thesis using v f by simp
qed

text \<open>
  C7, amended. On Vertex and on Feature (\<open>a\<close> of \<open>SIZE\<close> cells): \<open>a += b\<close> and \<open>a -= b\<close>
  leave \<open>a\<close> equal to \<open>a + b\<close> and \<open>a - b\<close> computed from the state before, for every
  \<open>b\<close>, \<open>a\<close> itself included; \<open>a *= s\<close> leaves \<open>a\<close> equal to \<open>a * s\<close> for every scalar \<open>s\<close>
  that is not a member of \<open>a\<close> itself.
\<close>

theorem compound_assignment_agrees:
  fixes a :: "('a::{zero,plus,minus,times}) Vertex" and b :: "'a Vertex other_ref"
    and fa :: "'a Feature" and fb :: "'a Feature other_ref" and s :: 'a
  assumes fa: "Feature_ok fa"
  shows "Vertex_plus_assign a b = Vertex_plus a (other_of a b) \<and>
    Vertex_minus_assign a b = Vertex_minus a (other_of a b) \<and>
    Vertex_times_assign a (Outside s) = Vertex_times_scalar a s \<and>
    Feature_plus_assign fa fb = Feature_plus fa (other_of fa fb) \<and>
    Feature_minus_assign fa fb = Feature_minus fa (other_of fa fb) \<and>
    Feature_times_assign fa (Outside s) = Feature_times_scalar fa s"
proof -
  have v1: "Vertex_plus_assign a b = Vertex_plus a (other_of a b)"
    by (cases a; cases b) (simp_all add: Vertex_plus_assign_def Vertex_plus_def Let_def)
  have v2: "Vertex_minus_assign a b = Vertex_minus a (other_of a b)"
    by (cases a; cases b) (simp_all add: Vertex_minus_assign_def Vertex_minus_def Let_def)
  have v3: "Vertex_times_assign a (Outside s) = Vertex_times_scalar a s"
    by (cases a) (simp add: Vertex_times_assign_def Vertex_times_scalar_def Let_def)
  have f1: "Feature_plus_assign fa fb = Feature_plus fa (other_of fa fb)"
    by (rule Feature_eqI) (simp only: Feature_plus_assign_data [OF fa] Feature_plus_data)
  have f2: "Feature_minus_assign fa fb = Feature_minus fa (other_of fa fb)"
    by (rule Feature_eqI) (simp only: Feature_minus_assign_data [OF fa] Feature_minus_data)
  have f3: "Feature_times_assign fa (Outside s) = Feature_times_scalar fa s"
    by (rule Feature_eqI) (simp only: Feature_times_assign_data [OF fa] Feature_times_scalar_data)
  show ?thesis using v1 v2 v3 f1 f2 f3 by blast
qed

theorem compound_assignment_agrees_witness:
  "Feature_ok feature_A \<and>
   Vertex_plus_assign vertex_A (Another vertex_B) = \<lparr>x = 11, y = 22, z = 33\<rparr> \<and>
   Vertex_plus vertex_A vertex_B = \<lparr>x = 11, y = 22, z = 33\<rparr> \<and>
   Vertex_minus_assign vertex_A (Another vertex_B) = Vertex_minus vertex_A vertex_B \<and>
   Vertex_times_assign vertex_A (Outside 5) = Vertex_times_scalar vertex_A 5 \<and>
   Feature_plus_assign feature_A (Another feature_B) = Feature_plus feature_A feature_B \<and>
   Feature_minus_assign feature_A (Another feature_B) = Feature_minus feature_A feature_B \<and>
   Feature_times_assign feature_A (Outside 5) = Feature_times_scalar feature_A 5"
proof -
  have fa: "Feature_ok feature_A" by (simp add: Feature_ok_def SIZE_def)
  have p: "Vertex_plus vertex_A vertex_B = \<lparr>x = 11, y = 22, z = 33\<rparr>"
    by (simp add: Vertex_plus_def)
  show ?thesis
    using compound_assignment_agrees [OF fa, of vertex_A "Another vertex_B" 5 "Another feature_B"]
      fa p
    by simp
qed

text \<open>
  C10. When the addition and the multiplication of the scalar type are commutative,
  \<open>a + b = b + a\<close> and \<open>a.dot(b) = b.dot(a)\<close> for all Vertex values and for all Feature
  values.
\<close>

theorem plus_commutes_dot_symmetric:
  fixes a b :: "('a::{zero,plus,times}) Vertex" and fa fb :: "'a Feature"
  assumes add_comm: "\<forall>u v :: 'a. u + v = v + u"
    and mult_comm: "\<forall>u v :: 'a. u * v = v * u"
  shows "Vertex_plus a b = Vertex_plus b a \<and> Vertex_dot a b = Vertex_dot b a \<and>
    Feature_plus fa fb = Feature_plus fb fa \<and> Feature_dot fa fb = Feature_dot fb fa"
proof -
  have ac: "\<And>u v :: 'a. u + v = v + u" using add_comm by blast
  have mc: "\<And>u v :: 'a. u * v = v * u" using mult_comm by blast
  have v1: "Vertex_plus a b = Vertex_plus b a"
    unfolding Vertex_plus_def
    by (simp only: ac [of "x a" "x b"] ac [of "y a" "y b"] ac [of "z a" "z b"])
  have v2: "Vertex_dot a b = Vertex_dot b a"
    unfolding Vertex_dot_def
    by (simp only: mc [of "x a" "x b"] mc [of "y a" "y b"] mc [of "z a" "z b"])
  have "map (\<lambda>i. data fa ! i + data fb ! i) [0..<SIZE] =
      map (\<lambda>i. data fb ! i + data fa ! i) [0..<SIZE]"
    by (rule map_cong [OF refl]) (rule ac)
  then have f1: "Feature_plus fa fb = Feature_plus fb fa"
    by (intro Feature_eqI) (simp only: Feature_plus_data)
  have f2: "Feature_dot fa fb = Feature_dot fb fa"
    unfolding Feature_dot_sum
    by (simp only: mc [of "data fa ! 0" "data fb ! 0"] mc [of "data fa ! 1" "data fb ! 1"]
        mc [of "data fa ! 2" "data fb ! 2"] mc [of "data fa ! 3" "data fb ! 3"]
        mc [of "data fa ! 4" "data fb ! 4"] mc [of "data fa ! 5" "data fb ! 5"]
        mc [of "data fa ! 6" "data fb ! 6"] mc [of "data fa ! 7" "data fb ! 7"])
  show ?thesis using v1 v2 f1 f2 by blast
qed

theorem plus_commutes_dot_symmetric_witness:
  "(\<forall>u v :: int. u + v = v + u) \<and> (\<forall>u v :: int. u * v = v * u) \<and>
   Vertex_plus vertex_A vertex_B = Vertex_plus vertex_B vertex_A \<and>
   Vertex_dot vertex_A vertex_B = 140 \<and> Vertex_dot vertex_B vertex_A = 140 \<and>
   Feature_plus feature_A feature_B = Feature_plus feature_B feature_A \<and>
   Feature_dot feature_A feature_B = Feature_dot feature_B feature_A"
proof -
  have ac: "\<forall>u v :: int. u + v = v + u" and mc: "\<forall>u v :: int. u * v = v * u"
    by simp_all
  have d: "Vertex_dot vertex_A vertex_B = 140" "Vertex_dot vertex_B vertex_A = 140"
    by (simp_all add: Vertex_dot_def)
  show ?thesis
    using plus_commutes_dot_symmetric [OF ac mc, of vertex_A vertex_B feature_A feature_B] ac mc d
    by blast
qed

subsection \<open>forward\<close>

lemma ensure_storage_size_Inr:
  assumes "ensure_storage_size obtainable allocated n = Inr cap"
  shows "(n \<le> allocated \<and> cap = allocated) \<or> (obtainable n \<and> cap = n)"
  using assms by (auto simp: ensure_storage_size_def split: if_splits)

lemma negative_index_to_size_t:
  fixes n :: "('i::len) word"
  assumes len: "LENGTH('i) \<le> 64" and neg: "sint n < 0"
  shows "2 ^ 63 \<le> unat (index_to_size_t n)"
proof -
  have "(2::int) ^ (LENGTH('i) - 1) \<le> 2 ^ 63"
    using len by (intro power_increasing) auto
  moreover have "- (2 ^ (LENGTH('i) - 1)) \<le> sint n" by (rule sint_ge)
  ultimately have lo: "- (2 ^ 63) \<le> sint n" by linarith
  have "uint (index_to_size_t n) = sint n mod 2 ^ LENGTH(64)"
    unfolding index_to_size_t_def by (rule uint_word_of_int)
  then have "uint (index_to_size_t n) = sint n mod 2 ^ 64" by simp
  also have "\<dots> = sint n + 2 ^ 64"
  proof -
    have "(sint n + 2 ^ 64) mod 2 ^ 64 = sint n + 2 ^ 64"
      using lo neg by (intro mod_pos_pos_trivial) auto
    then show ?thesis by simp
  qed
  finally have "2 ^ 63 \<le> uint (index_to_size_t n)" using lo by simp
  then have "int (2 ^ 63) \<le> int (unat (index_to_size_t n))" by simp
  then show ?thesis by (simp only: of_nat_le_iff)
qed

lemma compact_used_cells_length:
  "length (compact_used_cells code_of cells) \<le> nat (sint cells)"
proof -
  have "length (compact_used_cells code_of cells) \<le> length [0..<nat (sint cells)]"
    unfolding compact_used_cells_def by (rule length_filter_le)
  then show ?thesis by simp
qed

lemma sint_of_nat_small:
  fixes cells :: "('i::len) word"
  assumes "m \<le> nat (sint cells)"
  shows "sint (of_nat m :: 'i word) = int m"
proof -
  have up: "sint cells < 2 ^ (LENGTH('i) - 1)" by (rule sint_lt)
  have "int m \<le> sint cells \<or> m = 0" using assms by linarith
  then have "int m < 2 ^ (LENGTH('i) - 1)"
  proof
    assume "int m \<le> sint cells"
    then show ?thesis using up by linarith
  next
    assume "m = 0"
    then show ?thesis by simp
  qed
  have "- (2 ^ (LENGTH('i) - 1)) \<le> int m"
  proof -
    have "- (2 ^ (LENGTH('i) - 1)) \<le> (0::int)" by simp
    then show ?thesis by linarith
  qed
  moreover note \<open>int m < 2 ^ (LENGTH('i) - 1)\<close>
  moreover have "(of_nat m :: 'i word) = word_of_int (int m)" by simp
  ultimately show ?thesis
    by (simp only: sint_sbintrunc' signed_take_bit_int_eq_self)
qed

lemma forward_Inr:
  fixes c c' :: "('i::len) CuMC"
  assumes ok: "forward obtainable kernels_run code_of verts_of tris_of dimX dimY dimZ c = Inr c'"
  shows "\<exists>cap. ensure_storage_size obtainable (allocated_cell_count c)
            (index_to_size_t (dimX * dimY * dimZ)) = Inr cap \<and>
          allocated_cell_count c' = cap \<and>
          n_cells c' = dimX * dimY * dimZ \<and>
          n_used_cells c' = of_nat (length (compact_used_cells code_of (dimX * dimY * dimZ)))"
  using ok
  by (auto simp: forward_def resize_def Let_def split: sum.splits if_splits)

text \<open>
  A negative cell count cannot be served: the request for the per-cell storage is at
  least \<open>2 ^ 63\<close> elements, and the call fails with \<open>AllocationFailure\<close>.
\<close>

lemma forward_negative_cells_fails:
  fixes c :: "('i::len) CuMC"
  assumes len: "LENGTH('i) \<le> 64"
    and device: "\<forall>n. obtainable n \<longrightarrow> unat n < 2 ^ 63"
    and held: "unat (allocated_cell_count c) < 2 ^ 63"
    and neg: "dimX * dimY * dimZ <s 0"
  shows "forward obtainable kernels_run code_of verts_of tris_of dimX dimY dimZ c =
    Inl AllocationFailure"
proof -
  define n where "n = index_to_size_t (dimX * dimY * dimZ)"
  have "sint (dimX * dimY * dimZ) < 0" using neg by (simp add: word_sless_alt)
  then have big: "2 ^ 63 \<le> unat n"
    unfolding n_def by (rule negative_index_to_size_t [OF len])
  then have "\<not> obtainable n" using device by fastforce
  moreover have "\<not> n \<le> allocated_cell_count c"
    using big held by (simp add: word_le_nat_alt)
  ultimately have "ensure_storage_size obtainable (allocated_cell_count c) n =
      Inl AllocationFailure"
    by (simp add: ensure_storage_size_def)
  then show ?thesis
    by (simp add: forward_def resize_def Let_def n_def)
qed

text \<open>
  C8. spec-modelled. The invariant \<open>0 \<le> n_used_cells \<le> n_cells\<close> holds in the initial
  state, where both counts are 0, and after every successful \<open>forward\<close> call, for any
  dims and from any state of the context. The device is one that supplies no buffer of
  \<open>2 ^ 63\<close> elements or more, IndexType is no wider than \<open>size_t\<close>, and the per-cell
  capacity the context holds is below \<open>2 ^ 63\<close>, which the call preserves.
\<close>

theorem forward_bounds_used_cells:
  fixes c :: "('i::len) CuMC"
  assumes len: "LENGTH('i) \<le> 64"
    and device: "\<forall>n. obtainable n \<longrightarrow> unat n < 2 ^ 63"
    and held: "unat (allocated_cell_count c) < 2 ^ 63"
  shows "used_cells_bounded (CuMC_init :: 'i CuMC) \<and>
    (\<forall>c'. forward obtainable kernels_run code_of verts_of tris_of dimX dimY dimZ c = Inr c' \<longrightarrow>
       used_cells_bounded c' \<and> unat (allocated_cell_count c') < 2 ^ 63)"
proof (rule conjI)
  show "used_cells_bounded (CuMC_init :: 'i CuMC)"
    by (simp add: used_cells_bounded_def CuMC_init_def)
next
  show "\<forall>c'. forward obtainable kernels_run code_of verts_of tris_of dimX dimY dimZ c = Inr c' \<longrightarrow>
       used_cells_bounded c' \<and> unat (allocated_cell_count c') < 2 ^ 63"
  proof (intro allI impI)
  fix c' :: "'i CuMC"
  assume ok: "forward obtainable kernels_run code_of verts_of tris_of dimX dimY dimZ c = Inr c'"
  define cells where "cells = dimX * dimY * dimZ"
  define used where "used = length (compact_used_cells code_of cells)"
  from forward_Inr [OF ok] obtain cap where
    cap: "ensure_storage_size obtainable (allocated_cell_count c) (index_to_size_t cells) = Inr cap"
    and c': "allocated_cell_count c' = cap" "n_cells c' = cells" "n_used_cells c' = of_nat used"
    unfolding cells_def used_def by blast
  from ensure_storage_size_Inr [OF cap]
  have small: "unat (index_to_size_t cells) < 2 ^ 63 \<and> unat cap < 2 ^ 63"
  proof
    assume a: "index_to_size_t cells \<le> allocated_cell_count c \<and> cap = allocated_cell_count c"
    then have "unat (index_to_size_t cells) \<le> unat (allocated_cell_count c)"
      by (simp add: word_le_nat_alt)
    then show ?thesis using a held by simp
  next
    assume "obtainable (index_to_size_t cells) \<and> cap = index_to_size_t cells"
    then show ?thesis using device by simp
  qed
  have nonneg: "0 \<le> sint cells"
  proof (rule ccontr)
    assume "\<not> 0 \<le> sint cells"
    then have "2 ^ 63 \<le> unat (index_to_size_t cells)"
      using negative_index_to_size_t [OF len, of cells] by simp
    then show False using small by simp
  qed
  have le: "used \<le> nat (sint cells)"
    unfolding used_def by (rule compact_used_cells_length)
  have su: "sint (of_nat used :: 'i word) = int used"
    using le by (rule sint_of_nat_small)
  have "int used \<le> sint cells" using le nonneg by linarith
  then have "used_cells_bounded c'"
    by (simp add: used_cells_bounded_def c' word_sle_eq su)
  then show "used_cells_bounded c' \<and> unat (allocated_cell_count c') < 2 ^ 63"
    using small c' by simp
  qed
qed


theorem forward_bounds_used_cells_witness:
  "LENGTH(32) \<le> (64::nat) \<and>
   unat (allocated_cell_count (CuMC_init :: 32 CuMC)) < 2 ^ 63 \<and>
   (\<exists>c'. forward (\<lambda>n. n < 1000) True (\<lambda>i. if i = 3 then 1 else 0) (\<lambda>_. 3) (\<lambda>_. 1) 2 2 2
           (CuMC_init :: 32 CuMC) = Inr c' \<and> n_used_cells c' = 1 \<and> n_cells c' = 8 \<and>
         used_cells_bounded c')"
proof -
  have len: "LENGTH(32) \<le> (64::nat)" by simp
  have device: "\<forall>n::size_t. n < 1000 \<longrightarrow> unat n < 2 ^ 63"
  proof (intro allI impI)
    fix n :: size_t
    assume "n < 1000"
    then have "unat n < unat (1000 :: size_t)" by (simp only: word_less_nat_alt)
    then show "unat n < 2 ^ 63" by simp
  qed
  have held: "unat (allocated_cell_count (CuMC_init :: 32 CuMC)) < 2 ^ 63"
    by (simp add: CuMC_init_def)
  have up: "[0..<8] = [0, 1, 2, 3, 4, 5, 6, 7::nat]" by code_simp
  obtain c' where run: "forward (\<lambda>n. n < 1000) True (\<lambda>i. if i = 3 then 1 else 0) (\<lambda>_. 3) (\<lambda>_. 1) 2 2 2
           (CuMC_init :: 32 CuMC) = Inr c'" and "n_used_cells c' = 1" and "n_cells c' = 8"
    by (simp add: forward_def resize_def CuMC_init_def ensure_storage_size_def
        index_to_size_t_def compact_used_cells_def cell_used_def Let_def up)
  moreover have "used_cells_bounded c'"
    using forward_bounds_used_cells [OF len device held, of True "\<lambda>i. if i = 3 then 1 else 0"
        "\<lambda>_. 3" "\<lambda>_. 1" 2 2 2] run by blast
  ultimately show ?thesis using len held by blast
qed

end
